theory Spec2Isabelle
  imports Main "HOL-Library.Char_ord" "HOL-Library.List_Lexorder"
begin

section \<open>PyOmicron's Condor interaction utilities (omicron/condor.py)\<close>

text \<open>
  A shallow embedding of the module \<^verbatim>\<open>omicron/condor.py\<close>. Python exceptions are values
  of the type \<open>error\<close>; a function that may raise returns \<open>error + 'a\<close> with \<open>Inl\<close> for
  the exception. The names, keys and paths that the module writes or is given are
  \<open>string\<close>s; the captured output of a subprocess is a list of code points. Python's
  \<open>int\<close> is \<open>int\<close>, a \<open>dict\<close> is a map.
\<close>

subsection \<open>Exceptions\<close>

text \<open>
  The exceptions the module can raise, each with the one argument that the source gives
  it (the message set through \<^verbatim>\<open>e.args\<close>, the missing key, the unbound name, the path).
  \<open>CalledProcessError\<close> is what the docstring of \<^verbatim>\<open>submit_dag\<close> names for a failed
  subprocess.
\<close>

datatype error =
    IndexError string
  | KeyError string
  | AttributeError string
  | NameError string
  | OSError string
  | ValueError string
  | CalledProcessError int

subsection \<open>Strings: \<^verbatim>\<open>str.lower\<close>, \<^verbatim>\<open>str.title\<close>\<close>

definition ascii_uppercase :: string where
  "ascii_uppercase = ''ABCDEFGHIJKLMNOPQRSTUVWXYZ''"

definition ascii_lowercase :: string where
  "ascii_lowercase = ''abcdefghijklmnopqrstuvwxyz''"

definition isupper :: "char \<Rightarrow> bool" where
  "isupper c = (c \<in> set ascii_uppercase)"

definition islower :: "char \<Rightarrow> bool" where
  "islower c = (c \<in> set ascii_lowercase)"

definition lower_char :: "char \<Rightarrow> char" where
  "lower_char c = (case map_of (zip ascii_uppercase ascii_lowercase) c of
                     None \<Rightarrow> c | Some d \<Rightarrow> d)"

definition upper_char :: "char \<Rightarrow> char" where
  "upper_char c = (case map_of (zip ascii_lowercase ascii_uppercase) c of
                     None \<Rightarrow> c | Some d \<Rightarrow> d)"

text \<open>\<^verbatim>\<open>s.lower()\<close> on a byte string: the ASCII capitals are lowered, all else is kept.\<close>

definition lower :: "string \<Rightarrow> string" where
  "lower s = map lower_char s"

text \<open>
  \<^verbatim>\<open>s.title()\<close>: a cased character that follows an uncased one (or starts the string)
  is made a capital, a cased character that follows a cased one is lowered.
\<close>

fun title_from :: "bool \<Rightarrow> string \<Rightarrow> string" where
  "title_from prev [] = []"
| "title_from prev (c # cs) =
     (if islower c then (if prev then c else upper_char c) # title_from True cs
      else if isupper c then (if prev then lower_char c else c) # title_from True cs
      else c # title_from False cs)"

definition title :: "string \<Rightarrow> string" where
  "title s = title_from False s"

subsection \<open>The job status lexicon\<close>

definition JOB_STATUS :: "string list" where
  "JOB_STATUS = [''Unexpanded'', ''Idle'', ''Running'', ''Removed'', ''Completed'',
                 ''Held'', ''Submission error'']"

text \<open>\<^verbatim>\<open>dict(pairs)\<close>: the pairs are stored in order, a later pair replacing an earlier key.\<close>

definition dict :: "('k \<times> 'v) list \<Rightarrow> ('k \<rightharpoonup> 'v)" where
  "dict pairs = fold (\<lambda>(k, v) m. m(k \<mapsto> v)) pairs Map.empty"

text \<open>\<^verbatim>\<open>JOB_STATUS_MAP = dict((v.lower(), k) for k, v in enumerate(JOB_STATUS))\<close>\<close>

definition JOB_STATUS_MAP :: "string \<rightharpoonup> int" where
  "JOB_STATUS_MAP = dict (map (\<lambda>(k, v). (lower v, int k)) (enumerate 0 JOB_STATUS))"

text \<open>\<^verbatim>\<open>d[k]\<close>: the value stored under the key, \<^verbatim>\<open>KeyError(k)\<close> when there is none.\<close>

definition getitem :: "(string \<rightharpoonup> 'v) \<Rightarrow> string \<Rightarrow> error + 'v" where
  "getitem d k = (case d k of None \<Rightarrow> Inl (KeyError k) | Some v \<Rightarrow> Inr v)"

subsection \<open>The scheduler\<close>

text \<open>
  A ClassAd, as the module reads it: a record of named fields, \<^verbatim>\<open>ad[name]\<close> raising
  \<^verbatim>\<open>KeyError\<close> for a field the ad does not carry. Every field the module consumes
  (\<^verbatim>\<open>DAG_Nodes*\<close>, \<^verbatim>\<open>ExitCode\<close>, \<^verbatim>\<open>JobStatus\<close>) is an integer.
\<close>

type_synonym classad = "string \<rightharpoonup> int"

text \<open>
  The two constraint expressions the module builds:
  \<^verbatim>\<open>'ClusterId == %d' % dagmanid\<close> and \<^verbatim>\<open>'DAGManJobId == %d' % dagmanid\<close>.
\<close>

datatype constraint = ClusterId_eq int | DAGManJobId_eq int

text \<open>
  \<^verbatim>\<open>htcondor.Schedd\<close> is an external library: a connection is taken as what it answers
  at the moment of the call. \<open>query c attrs\<close> is \<^verbatim>\<open>schedd.query(c, attrs)\<close>, the ads of
  the live queue that satisfy \<open>c\<close> (\<open>attrs = []\<close> when the call gives no projection);
  \<open>history c attrs n\<close> is \<^verbatim>\<open>list(schedd.history(c, attrs, n))\<close>, at most \<open>n\<close> ads of
  the historical log that satisfy \<open>c\<close>, the most recent first.
\<close>

record schedd =
  query :: "constraint \<Rightarrow> string list \<Rightarrow> classad list"
  history :: "constraint \<Rightarrow> string list \<Rightarrow> nat \<Rightarrow> classad list"

subsection \<open>\<^verbatim>\<open>get_dag_status\<close>\<close>

type_synonym status = "string \<rightharpoonup> int"

definition states :: "string list" where
  "states = [''total'', ''done'', ''queued'', ''ready'', ''unready'', ''failed'']"

text \<open>\<^verbatim>\<open>classads = ['DAG_Nodes%s' % s.title() for s in states]\<close>\<close>

definition classads :: "string list" where
  "classads = map (\<lambda>s. ''DAG_Nodes'' @ title s) states"

text \<open>
  \<^verbatim>\<open>dict((s, job[c]) for s, c in zip(states, classads))\<close>: the pairs are produced in
  order, the first field that \<open>job\<close> lacks raises \<^verbatim>\<open>KeyError\<close>, a later pair replaces an
  earlier key. \<open>acc\<close> is the dictionary built so far.
\<close>

fun dict_of_job :: "classad \<Rightarrow> (string \<times> string) list \<Rightarrow> status \<Rightarrow> error + status" where
  "dict_of_job job [] acc = Inr acc"
| "dict_of_job job ((s, c) # rest) acc =
     (case getitem job c of
        Inl e \<Rightarrow> Inl e
      | Inr v \<Rightarrow> dict_of_job job rest (acc(s \<mapsto> v)))"

text \<open>\<^verbatim>\<open>status[k] += 1\<close>\<close>

definition increment :: "status \<Rightarrow> string \<Rightarrow> error + status" where
  "increment status k =
     (case getitem status k of Inl e \<Rightarrow> Inl e | Inr v \<Rightarrow> Inr (status(k \<mapsto> v + 1)))"

text \<open>
  The loop \<^verbatim>\<open>for node in nodes\<close> of the detailed branch. Each comparison reads
  \<^verbatim>\<open>dict(node)['JobStatus']\<close> first and the lexicon second.
\<close>

fun count_nodes :: "classad list \<Rightarrow> status \<Rightarrow> error + status" where
  "count_nodes [] status = Inr status"
| "count_nodes (node # nodes) status =
     (case getitem node ''JobStatus'' of
        Inl e \<Rightarrow> Inl e
      | Inr js \<Rightarrow>
         (case getitem JOB_STATUS_MAP ''held'' of
            Inl e \<Rightarrow> Inl e
          | Inr held \<Rightarrow>
             if js = held then
               (case increment status ''held'' of
                  Inl e \<Rightarrow> Inl e | Inr status' \<Rightarrow> count_nodes nodes status')
             else
               (case getitem JOB_STATUS_MAP ''running'' of
                  Inl e \<Rightarrow> Inl e
                | Inr running \<Rightarrow>
                   if js = running then
                     (case increment status ''running'' of
                        Inl e \<Rightarrow> Inl e | Inr status' \<Rightarrow> count_nodes nodes status')
                   else
                     (case getitem JOB_STATUS_MAP ''idle'' of
                        Inl e \<Rightarrow> Inl e
                      | Inr idle \<Rightarrow>
                         if js = idle then
                           (case increment status ''idle'' of
                              Inl e \<Rightarrow> Inl e | Inr status' \<Rightarrow> count_nodes nodes status')
                         else count_nodes nodes status))))"

text \<open>
  \<^verbatim>\<open>get_dag_status(dagmanid, schedd=None, detailed=True)\<close>. The first argument is the
  connection that \<^verbatim>\<open>htcondor.Schedd()\<close> opens when \<open>schedd\<close> is \<open>None\<close>. The
  \<^verbatim>\<open>try\<close> covers \<^verbatim>\<open>schedd.query(...)[0]\<close> alone: an \<^verbatim>\<open>IndexError\<close> there enters the
  \<^verbatim>\<open>except\<close> branch, and whatever that branch raises is not caught.
\<close>

definition get_dag_status :: "schedd \<Rightarrow> int \<Rightarrow> schedd option \<Rightarrow> bool \<Rightarrow> error + status" where
  "get_dag_status htcondor_Schedd dagmanid schedd_arg detailed =
     (let schedd = (case schedd_arg of None \<Rightarrow> htcondor_Schedd | Some s \<Rightarrow> s) in
      case query schedd (ClusterId_eq dagmanid) classads of
        [] \<Rightarrow>
          (case history schedd (ClusterId_eq dagmanid) (classads @ [''ExitCode'']) 1 of
             [] \<Rightarrow> Inl (IndexError ''list index out of range'')
           | job # _ \<Rightarrow>
               (case dict_of_job job (zip states classads) Map.empty of
                  Inl e \<Rightarrow> Inl e
                | Inr history' \<Rightarrow>
                    (case getitem job ''ExitCode'' of
                       Inl e \<Rightarrow> Inl e
                     | Inr exitcode \<Rightarrow> Inr (history'(''exitcode'' \<mapsto> exitcode)))))
      | job # _ \<Rightarrow>
          (case dict_of_job job (zip states classads) Map.empty of
             Inl e \<Rightarrow> Inl e
           | Inr status \<Rightarrow>
               if detailed then
                 count_nodes (query schedd (DAGManJobId_eq dagmanid) [])
                   (status(''held'' \<mapsto> 0, ''running'' \<mapsto> 0, ''idle'' \<mapsto> 0))
               else Inr status))"

subsection \<open>\<^verbatim>\<open>iterate_dag_status\<close>\<close>

text \<open>
  The generator, as the list of the snapshots it yields and the exception that ends it,
  if one does. The connection is given as what it answers at each poll: \<open>conn n\<close> at the
  poll number \<open>n\<close>, the polls being \<^verbatim>\<open>sleep(interval)\<close> apart. The loop has no bound of
  its own: the result is \<open>None\<close> when it never ends.
\<close>

partial_function (option) iterate_dag_status_from ::
  "(nat \<Rightarrow> schedd) \<Rightarrow> int \<Rightarrow> nat \<Rightarrow> (status list \<times> error option) option" where
  "iterate_dag_status_from conn clusterid n =
     (case get_dag_status (conn n) clusterid (Some (conn n)) True of
        Inl e \<Rightarrow> Some ([], Some e)
      | Inr status \<Rightarrow>
          if ''exitcode'' \<in> dom status then Some ([status], None)
          else Option.bind (iterate_dag_status_from conn clusterid (Suc n))
                 (\<lambda>(rest, raised). Some (status # rest, raised)))"

definition iterate_dag_status :: "(nat \<Rightarrow> schedd) \<Rightarrow> int \<Rightarrow> (status list \<times> error option) option" where
  "iterate_dag_status htcondor_Schedd clusterid = iterate_dag_status_from htcondor_Schedd clusterid 0"

subsection \<open>\<^verbatim>\<open>glob\<close> and \<^verbatim>\<open>find_rescue_dag\<close>\<close>

text \<open>
  \<^verbatim>\<open>fnmatch\<close>, the matcher behind \<^verbatim>\<open>glob\<close>: \<^verbatim>\<open>*\<close> matches any run of characters,
  \<^verbatim>\<open>?\<close> any one character, \<^verbatim>\<open>[seq]\<close> one character of \<open>seq\<close> and \<^verbatim>\<open>[!seq]\<close> one
  character not of it; any other character matches itself. A \<^verbatim>\<open>[\<close> that no \<^verbatim>\<open>]\<close>
  closes is an ordinary character.
\<close>

text \<open>The body of a class and the pattern after its \<^verbatim>\<open>]\<close>, read from behind the \<^verbatim>\<open>[\<close>.\<close>

definition split_class :: "string \<Rightarrow> (string \<times> string) option" where
  "split_class s =
     (let (neg, s1) = (case s of c # t \<Rightarrow> if c = CHR ''!'' then ([c], t) else ([], s) | [] \<Rightarrow> ([], s));
          (first, s2) = (case s1 of c # t \<Rightarrow> if c = CHR '']'' then ([c], t) else ([], s1) | [] \<Rightarrow> ([], s1));
          body = takeWhile (\<lambda>c. c \<noteq> CHR '']'') s2;
          after = dropWhile (\<lambda>c. c \<noteq> CHR '']'') s2
      in case after of [] \<Rightarrow> None | _ # rest \<Rightarrow> Some (neg @ first @ body, rest))"

text \<open>The members of a class body: \<^verbatim>\<open>a-b\<close> is the range from \<open>a\<close> to \<open>b\<close>.\<close>

fun class_ranges :: "string \<Rightarrow> (char \<times> char) list" where
  "class_ranges (a # m # b # rest) =
     (if m = CHR ''-'' then (a, b) # class_ranges rest else (a, a) # class_ranges (m # b # rest))"
| "class_ranges (a # rest) = (a, a) # class_ranges rest"
| "class_ranges [] = []"

definition in_class :: "string \<Rightarrow> char \<Rightarrow> bool" where
  "in_class body c =
     (case body of
        n # rest \<Rightarrow>
          if n = CHR ''!'' then \<not> list_ex (\<lambda>(lo, hi). lo \<le> c \<and> c \<le> hi) (class_ranges rest)
          else list_ex (\<lambda>(lo, hi). lo \<le> c \<and> c \<le> hi) (class_ranges body)
      | [] \<Rightarrow> False)"

lemma dropWhile_rest_shorter: "dropWhile P xs = x # rest \<Longrightarrow> length rest < length xs"
  using length_dropWhile_le [of P xs] by simp

lemma split_class_shorter: "split_class s = Some (body, rest) \<Longrightarrow> length rest < Suc (length s)"
  by (auto simp: split_class_def Let_def split: list.splits if_splits
           dest!: dropWhile_rest_shorter)

function fnmatch :: "string \<Rightarrow> string \<Rightarrow> bool" where
  "fnmatch name [] = (name = [])"
| "fnmatch name (p # ps) =
     (if p = CHR ''*'' then
        fnmatch name ps \<or> (case name of [] \<Rightarrow> False | _ # cs \<Rightarrow> fnmatch cs (p # ps))
      else if p = CHR ''?'' then
        (case name of [] \<Rightarrow> False | _ # cs \<Rightarrow> fnmatch cs ps)
      else if p = CHR ''['' then
        (case split_class ps of
           None \<Rightarrow> (case name of [] \<Rightarrow> False | c # cs \<Rightarrow> c = p \<and> fnmatch cs ps)
         | Some (body, rest) \<Rightarrow>
             (case name of [] \<Rightarrow> False | c # cs \<Rightarrow> in_class body c \<and> fnmatch cs rest))
      else
        (case name of [] \<Rightarrow> False | c # cs \<Rightarrow> c = p \<and> fnmatch cs ps))"
  by pat_completeness auto
termination
  by (relation "measure (\<lambda>(name, pat). length name + length pat)")
     (auto dest: split_class_shorter)

definition has_magic :: "string \<Rightarrow> bool" where
  "has_magic s = list_ex (\<lambda>c. c \<in> set ''*?['') s"

text \<open>
  \<^verbatim>\<open>glob(pattern)\<close> for a pattern with no directory part: \<open>names\<close> is the listing of the
  current directory. A name that starts with a dot is skipped unless the pattern starts
  with one; a pattern with nothing to expand is a plain existence test.
\<close>

definition glob :: "string list \<Rightarrow> string \<Rightarrow> string list" where
  "glob names pattern =
     (if \<not> has_magic pattern then (if pattern \<in> set names then [pattern] else [])
      else filter (\<lambda>name. fnmatch name pattern)
             (if take 1 pattern \<noteq> ''.'' then filter (\<lambda>x. take 1 x \<noteq> ''.'') names else names))"

text \<open>
  \<^verbatim>\<open>find_rescue_dag(dagfile)\<close>. The source passes the string
  \<^verbatim>\<open>'%s.rescue[0-9][0-9][0-9]'\<close> to \<^verbatim>\<open>glob\<close> as it stands: no \<^verbatim>\<open>% dagfile\<close> follows it.
  \<^verbatim>\<open>sorted(...)[-1]\<close> is the last of the sorted list, \<^verbatim>\<open>IndexError\<close> when it is empty.
\<close>

definition find_rescue_dag :: "string list \<Rightarrow> string \<Rightarrow> error + string" where
  "find_rescue_dag names dagfile =
     (case sort (glob names ''%s.rescue[0-9][0-9][0-9]'') of
        [] \<Rightarrow> Inl (IndexError ''No rescue DAG files found'')
      | x # xs \<Rightarrow> Inr (last (x # xs)))"

subsection \<open>\<^verbatim>\<open>submit_dag\<close>\<close>

text \<open>
  The captured output of the subprocess is a \<^verbatim>\<open>str\<close> of any characters: it is modelled as
  the list of its code points, and the classes of the pattern are decided on code points.
  \<open>unicode_of\<close> gives the code points of a literal of the source.
\<close>

type_synonym unicode = "nat list"

definition unicode_of :: "string \<Rightarrow> unicode" where
  "unicode_of s = map of_char s"

text \<open>The class \<^verbatim>\<open>[0-9]\<close>: the ten ASCII digits and no other digit of Unicode.\<close>

definition isdigit :: "nat \<Rightarrow> bool" where
  "isdigit c = (48 \<le> c \<and> c \<le> 57)"

text \<open>
  The class \<^verbatim>\<open>\s\<close> of a \<^verbatim>\<open>str\<close> pattern, the white space of Unicode: the ASCII controls
  \<open>0x09\<close> to \<open>0x0D\<close> and \<open>0x1C\<close> to \<open>0x1F\<close>, the blank, \<open>0x85\<close>, \<open>0xA0\<close>, and the
  spaces and separators beyond Latin-1.
\<close>

definition isspace :: "nat \<Rightarrow> bool" where
  "isspace c = (c \<in> set [0x09, 0x0A, 0x0B, 0x0C, 0x0D, 0x1C, 0x1D, 0x1E, 0x1F, 0x20, 0x85, 0xA0,
       0x1680, 0x2000, 0x2001, 0x2002, 0x2003, 0x2004, 0x2005, 0x2006, 0x2007, 0x2008, 0x2009,
       0x200A, 0x2028, 0x2029, 0x202F, 0x205F, 0x3000])"

text \<open>
  The compiled pattern \<^verbatim>\<open>re_dagman_cluster = re.compile('(?<=submitted\sto\scluster )[0-9]+')\<close>:
  a look-behind of fixed width, then one or more digits. An item of the look-behind is a
  literal character or the class \<^verbatim>\<open>\s\<close>.
\<close>

datatype re_item = Lit nat | Space

fun item_matches :: "re_item \<Rightarrow> nat \<Rightarrow> bool" where
  "item_matches (Lit a) c = (c = a)"
| "item_matches Space c = isspace c"

definition re_lookbehind :: "re_item list" where
  "re_lookbehind = map Lit (unicode_of ''submitted'') @ [Space] @ map Lit (unicode_of ''to'')
                     @ [Space] @ map Lit (unicode_of ''cluster '')"

text \<open>The look-behind holds at a position when the text before it ends as the items say.\<close>

definition lookbehind :: "unicode \<Rightarrow> bool" where
  "lookbehind passed =
     (length re_lookbehind \<le> length passed \<and>
      list_all2 item_matches re_lookbehind (drop (length passed - length re_lookbehind) passed))"

text \<open>
  \<^verbatim>\<open>re_dagman_cluster.search(out)\<close>: the positions are tried from the left; at the first
  one where the look-behind holds and a digit stands, the match is the longest run of
  digits from there (\<^verbatim>\<open>.group()\<close>). \<open>None\<close> when no position matches. \<open>passed\<close> is the
  text already read.
\<close>

fun search_from :: "unicode \<Rightarrow> unicode \<Rightarrow> unicode option" where
  "search_from passed [] = None"
| "search_from passed (c # cs) =
     (if lookbehind passed \<and> isdigit c then Some (takeWhile isdigit (c # cs))
      else search_from (passed @ [c]) cs)"

definition re_dagman_cluster_search :: "unicode \<Rightarrow> unicode option" where
  "re_dagman_cluster_search out = search_from [] out"

text \<open>
  \<^verbatim>\<open>int(s)\<close> on the text of a match, which is a non-empty run of the digits \<open>0\<close> to \<open>9\<close>.
  The interpreter converts at most \<open>int_max_str_digits\<close> digits, 4300 unless it is set
  otherwise, leading zeros counted, and raises \<^verbatim>\<open>ValueError\<close> for a longer run; the message
  here is the start of the interpreter's. On a string that is not a run of digits the
  model answers \<^verbatim>\<open>ValueError\<close> too; the pattern never yields one.
\<close>

definition int_max_str_digits :: nat where
  "int_max_str_digits = 4300"

definition digit_value :: "nat \<Rightarrow> int" where
  "digit_value c = int c - 48"

definition py_int :: "unicode \<Rightarrow> error + int" where
  "py_int s =
     (if s = [] \<or> \<not> list_all isdigit s then
        Inl (ValueError ''invalid literal for int() with base 10'')
      else if int_max_str_digits < length s then
        Inl (ValueError ''Exceeds the limit (4300 digits) for integer string conversion'')
      else Inr (foldl (\<lambda>n c. 10 * n + digit_value c) 0 s))"

text \<open>
  \<^verbatim>\<open>submit_dag(dagfile, force=False)\<close>. \<^verbatim>\<open>which\<close> and \<^verbatim>\<open>shell\<close> come from
  \<^verbatim>\<open>omicron/utils.py\<close>, which is not among the sources: they are parameters, \<open>shell cmd\<close>
  being the captured output of the command or the exception of a failed subprocess.
  A search without a match returns \<^verbatim>\<open>None\<close>, whose \<^verbatim>\<open>.group()\<close> raises the
  \<^verbatim>\<open>AttributeError\<close> that the handler re-raises with its own message; the handler
  catches \<^verbatim>\<open>AttributeError\<close>, \<^verbatim>\<open>IndexError\<close> and \<^verbatim>\<open>TypeError\<close>, so a \<^verbatim>\<open>ValueError\<close> of
  \<^verbatim>\<open>int\<close> passes it. The \<^verbatim>\<open>print(out)\<close> writes to the standard output and changes nothing
  else.
\<close>

definition submit_dag ::
  "(string \<Rightarrow> error + string) \<Rightarrow> (string list \<Rightarrow> error + unicode) \<Rightarrow> string \<Rightarrow> bool \<Rightarrow> error + int" where
  "submit_dag which shell dagfile force =
     (case which ''condor_submit_dag'' of
        Inl e \<Rightarrow> Inl e
      | Inr exe \<Rightarrow>
          (let cmd = [exe] @ (if force then [''-force''] else []) @ [dagfile] in
           case shell cmd of
             Inl e \<Rightarrow> Inl e
           | Inr out \<Rightarrow>
               (case re_dagman_cluster_search out of
                  None \<Rightarrow> Inl (AttributeError
                    ''Failed to extract DAG cluster ID from condor_submit_dag output'')
                | Some matched \<Rightarrow> py_int matched)))"

subsection \<open>\<^verbatim>\<open>monitor_dag\<close>\<close>

text \<open>
  The file system as \<^verbatim>\<open>monitor_dag\<close> sees it: \<open>fs n\<close> lists the paths that exist at the
  moment of its \<open>n\<close>-th look at the lock file, counted from 0; two looks are
  \<^verbatim>\<open>sleep(interval)\<close> apart. \<^verbatim>\<open>stat(path)\<close> raises \<^verbatim>\<open>OSError\<close> for a path that does not
  exist.
\<close>

type_synonym filesystem = "nat \<Rightarrow> string list"

definition stat :: "filesystem \<Rightarrow> nat \<Rightarrow> string \<Rightarrow> error + unit" where
  "stat fs n path = (if path \<in> set (fs n) then Inr () else Inl (OSError path))"

text \<open>
  The loop \<^verbatim>\<open>while True: sleep(interval); try: stat(lock) except OSError: break\<close>,
  entered after \<open>n\<close> sleeps; its value is the number of sleeps when it is left, \<open>None\<close>
  when it never is.
\<close>

partial_function (option) monitor_loop :: "filesystem \<Rightarrow> string \<Rightarrow> nat \<Rightarrow> nat option" where
  "monitor_loop fs lock n =
     (case stat fs (Suc n) lock of
        Inr _ \<Rightarrow> monitor_loop fs lock (Suc n)
      | Inl _ \<Rightarrow> Some (Suc n))"

text \<open>
  The functions of one path that the module binds at its top level, by name. The module
  defines \<^verbatim>\<open>find_rescue_dag\<close>; it neither defines nor imports a \<^verbatim>\<open>find_rescue\<close>.
  The listing is the one \<^verbatim>\<open>glob\<close> reads.
\<close>

definition module_functions :: "string \<rightharpoonup> (string list \<Rightarrow> string \<Rightarrow> error + string)" where
  "module_functions = [''find_rescue_dag'' \<mapsto> find_rescue_dag]"

text \<open>
  \<^verbatim>\<open>monitor_dag(dagfile, interval=5)\<close>: the number of sleeps and how the call ends,
  \<open>Inr ()\<close> for a normal return. A name that is not bound raises \<^verbatim>\<open>NameError\<close>; the
  handler after the loop catches \<^verbatim>\<open>IndexError\<close> alone.
\<close>

definition monitor_dag :: "filesystem \<Rightarrow> string \<Rightarrow> (nat \<times> (error + unit)) option" where
  "monitor_dag fs dagfile =
     (let lock = dagfile @ ''.lock'' in
      case stat fs 0 lock of
        Inl e \<Rightarrow> Some (0, Inl e)
      | Inr _ \<Rightarrow>
          Option.bind (monitor_loop fs lock 0)
            (\<lambda>n. Some (n,
               case module_functions ''find_rescue'' of
                 None \<Rightarrow> Inl (NameError ''find_rescue'')
               | Some find_rescue \<Rightarrow>
                   (case find_rescue (fs n) dagfile of
                      Inl (IndexError _) \<Rightarrow> Inr ()
                    | Inl e \<Rightarrow> Inl e
                    | Inr _ \<Rightarrow> Inr ()))))"

subsection \<open>A scripted scheduler\<close>

text \<open>
  Concrete answers of a scheduler, for running the functions above: a DAG with the cluster
  id 4821 that is in the live queue with five subordinate jobs (\<open>live_schedd\<close>), the same
  DAG once it has left the queue with exit code 0 (\<open>finished_schedd\<close>), and a connection
  that answers as the first at its polls 0, 1 and 2 and as the second from the poll 3 on
  (\<open>scripted\<close>).
\<close>

definition example_job :: classad where
  "example_job = [''DAG_NodesTotal'' \<mapsto> 10, ''DAG_NodesDone'' \<mapsto> 3, ''DAG_NodesQueued'' \<mapsto> 4,
     ''DAG_NodesReady'' \<mapsto> 1, ''DAG_NodesUnready'' \<mapsto> 2, ''DAG_NodesFailed'' \<mapsto> 0]"

definition example_nodes :: "classad list" where
  "example_nodes = [[''JobStatus'' \<mapsto> 5], [''JobStatus'' \<mapsto> 2], [''JobStatus'' \<mapsto> 2],
     [''JobStatus'' \<mapsto> 1], [''JobStatus'' \<mapsto> 4]]"

definition live_schedd :: schedd where
  "live_schedd =
     \<lparr>query = (\<lambda>c attrs. case c of
          ClusterId_eq k \<Rightarrow> if k = 4821 then [example_job] else []
        | DAGManJobId_eq k \<Rightarrow> if k = 4821 then example_nodes else []),
      history = (\<lambda>c attrs n. [])\<rparr>"

definition finished_schedd :: schedd where
  "finished_schedd =
     \<lparr>query = (\<lambda>c attrs. []),
      history = (\<lambda>c attrs n. case c of
          ClusterId_eq k \<Rightarrow> if k = 4821 then take n [example_job(''ExitCode'' \<mapsto> 0)] else []
        | DAGManJobId_eq k \<Rightarrow> [])\<rparr>"

definition scripted :: "nat \<Rightarrow> schedd" where
  "scripted n = (if n < 3 then live_schedd else finished_schedd)"

section \<open>Properties\<close>

subsection \<open>Evaluation of the constants\<close>

lemmas char_defs = lower_def lower_char_def upper_char_def ascii_uppercase_def
  ascii_lowercase_def islower_def isupper_def

lemma JOB_STATUS_MAP_eq:
  "JOB_STATUS_MAP = [''unexpanded'' \<mapsto> 0, ''idle'' \<mapsto> 1, ''running'' \<mapsto> 2, ''removed'' \<mapsto> 3,
     ''completed'' \<mapsto> 4, ''held'' \<mapsto> 5, ''submission error'' \<mapsto> 6]"
  by (simp add: JOB_STATUS_MAP_def dict_def JOB_STATUS_def char_defs)

lemma lower_JOB_STATUS:
  "map lower JOB_STATUS =
     [''unexpanded'', ''idle'', ''running'', ''removed'', ''completed'', ''held'',
      ''submission error'']"
  by (simp add: JOB_STATUS_def char_defs)

lemma classads_eq:
  "classads = [''DAG_NodesTotal'', ''DAG_NodesDone'', ''DAG_NodesQueued'', ''DAG_NodesReady'',
               ''DAG_NodesUnready'', ''DAG_NodesFailed'']"
  by (simp add: classads_def states_def title_def char_defs)

lemma lexicon_codes:
  "JOB_STATUS_MAP ''held'' = Some 5"
  "JOB_STATUS_MAP ''running'' = Some 2"
  "JOB_STATUS_MAP ''idle'' = Some 1"
  by (simp_all add: JOB_STATUS_MAP_eq)

lemma zip_states_classads:
  "zip states classads =
     [(''total'', ''DAG_NodesTotal''), (''done'', ''DAG_NodesDone''),
      (''queued'', ''DAG_NodesQueued''), (''ready'', ''DAG_NodesReady''),
      (''unready'', ''DAG_NodesUnready''), (''failed'', ''DAG_NodesFailed'')]"
  by (simp add: classads_eq states_def)

lemma example_live:
  "query live_schedd (ClusterId_eq 4821) classads = [example_job]"
  "query live_schedd (DAGManJobId_eq 4821) [] = example_nodes"
  by (simp_all add: live_schedd_def)

lemma example_finished:
  "query finished_schedd c attrs = []"
  "history finished_schedd (ClusterId_eq 4821) attrs 1 = [example_job(''ExitCode'' \<mapsto> 0)]"
  "history finished_schedd (ClusterId_eq 7) attrs 1 = []"
  by (simp_all add: finished_schedd_def)

lemma example_job_counters: "\<forall>c \<in> set classads. \<exists>v. example_job c = Some v \<and> 0 \<le> v"
  by (simp add: classads_eq example_job_def)

lemma example_job_fields: "\<forall>c \<in> set classads. example_job c \<noteq> None"
  using example_job_counters by fastforce

lemma example_nodes_status: "\<forall>node \<in> set example_nodes. node ''JobStatus'' \<noteq> None"
  by (simp add: example_nodes_def)

subsection \<open>The job status lexicon\<close>

lemma lower_idem: "lower (lower s) = lower s"
proof -
  have "lower_char (lower_char c) = lower_char c" for c
    by (auto simp: lower_char_def ascii_uppercase_def ascii_lowercase_def
             split: option.splits if_splits)
  then show ?thesis by (simp add: lower_def)
qed

lemma JOB_STATUS_MAP_keys: "JOB_STATUS_MAP key \<noteq> None \<longleftrightarrow> key \<in> lower ` set JOB_STATUS"
proof -
  have "lower ` set JOB_STATUS = set (map lower JOB_STATUS)" by simp
  then show ?thesis
    unfolding lower_JOB_STATUS JOB_STATUS_MAP_eq by (simp split: if_splits)
qed

text \<open>
  C7 (as amended). The lexicon is the list of seven names, and \<open>JOB_STATUS_MAP\<close> stores the
  code of each under its lower-cased name, the codes being the positions 0 to 6: a name
  in any casing reaches its code once it has been lower-cased. In particular the
  lower-cased name is \<open>held\<close> exactly for code 5, \<open>running\<close> for code 2 and \<open>idle\<close> for
  code 1. A key is compared as it is given: the keys of the map are the seven lower-cased
  names and no other, so a key that is not in lower case is absent and its lookup raises
  \<^verbatim>\<open>KeyError\<close>.
\<close>

theorem JOB_STATUS_MAP_lowered:
  assumes "i < length JOB_STATUS" and "lower name = lower (JOB_STATUS ! i)"
  shows "length JOB_STATUS = 7 \<and> getitem JOB_STATUS_MAP (lower name) = Inr (int i) \<and>
         (lower name = ''held'' \<longleftrightarrow> i = 5) \<and> (lower name = ''running'' \<longleftrightarrow> i = 2) \<and>
         (lower name = ''idle'' \<longleftrightarrow> i = 1) \<and>
         (\<forall>key. lower key \<noteq> key \<longrightarrow> getitem JOB_STATUS_MAP key = Inl (KeyError key)) \<and>
         (\<forall>key. getitem JOB_STATUS_MAP key = Inl (KeyError key) \<longleftrightarrow> key \<notin> lower ` set JOB_STATUS)"
proof -
  have len: "length JOB_STATUS = 7" by (simp add: JOB_STATUS_def)
  from assms(1) len have "i = 0 \<or> i = 1 \<or> i = 2 \<or> i = 3 \<or> i = 4 \<or> i = 5 \<or> i = 6" by arith
  moreover have "lower name = map lower JOB_STATUS ! i" using assms by simp
  ultimately have codes: "length JOB_STATUS = 7 \<and> getitem JOB_STATUS_MAP (lower name) = Inr (int i) \<and>
         (lower name = ''held'' \<longleftrightarrow> i = 5) \<and> (lower name = ''running'' \<longleftrightarrow> i = 2) \<and>
         (lower name = ''idle'' \<longleftrightarrow> i = 1)"
    unfolding lower_JOB_STATUS JOB_STATUS_MAP_eq using len
    by (auto simp: getitem_def)
  have absent: "getitem JOB_STATUS_MAP key = Inl (KeyError key) \<longleftrightarrow> key \<notin> lower ` set JOB_STATUS"
    for key
    using JOB_STATUS_MAP_keys [of key] by (auto simp: getitem_def split: option.splits)
  have exact: "getitem JOB_STATUS_MAP key = Inl (KeyError key)" if "lower key \<noteq> key" for key
  proof -
    have "key \<notin> lower ` set JOB_STATUS"
    proof
      assume "key \<in> lower ` set JOB_STATUS"
      then obtain n where "key = lower n" by blast
      then have "lower key = key" by (simp add: lower_idem)
      with that show False by simp
    qed
    with absent show ?thesis by simp
  qed
  from codes absent exact show ?thesis by blast
qed

theorem JOB_STATUS_MAP_lowered_witness:
  "(5::nat) < length JOB_STATUS \<and> lower ''HeLd'' = lower (JOB_STATUS ! 5) \<and>
   getitem JOB_STATUS_MAP (lower ''HeLd'') = Inr 5 \<and> lower ''HeLd'' = ''held'' \<and>
   lower ''HeLd'' \<noteq> ''HeLd'' \<and> getitem JOB_STATUS_MAP ''HeLd'' = Inl (KeyError ''HeLd'')"
proof -
  have h1: "(5::nat) < length JOB_STATUS" by (simp add: JOB_STATUS_def)
  have h2: "lower ''HeLd'' = lower (JOB_STATUS ! 5)" by (simp add: JOB_STATUS_def char_defs)
  have low: "lower ''HeLd'' = ''held''" by (simp add: char_defs)
  have r: "getitem JOB_STATUS_MAP (lower ''HeLd'') = Inr 5"
    using JOB_STATUS_MAP_lowered [OF h1 h2, THEN conjunct2, THEN conjunct1] by simp
  have ne: "lower ''HeLd'' \<noteq> ''HeLd''" by (simp add: char_defs)
  have a: "getitem JOB_STATUS_MAP ''HeLd'' = Inl (KeyError ''HeLd'')"
    using JOB_STATUS_MAP_lowered [OF h1 h2, THEN conjunct2, THEN conjunct2, THEN conjunct2,
        THEN conjunct2, THEN conjunct2, THEN conjunct1, rule_format, OF ne] .
  from h1 h2 r low ne a show ?thesis by blast
qed

text \<open>
  C7 as stated fails: the keys of \<open>JOB_STATUS_MAP\<close> are the lower-cased names alone, and a
  lookup compares the key as it is given. \<open>Held\<close> is a casing of \<open>held\<close>, which has code
  5, and \<^verbatim>\<open>JOB_STATUS_MAP['Held']\<close> raises \<^verbatim>\<open>KeyError\<close>.
\<close>

theorem JOB_STATUS_MAP_casing_counterexample:
  "lower ''Held'' = lower ''held'' \<and> JOB_STATUS_MAP ''held'' = Some 5 \<and>
   getitem JOB_STATUS_MAP ''Held'' = Inl (KeyError ''Held'')"
  by (simp add: JOB_STATUS_MAP_eq getitem_def char_defs)

subsection \<open>Rescue DAGs\<close>

text \<open>
  C5. In a directory that holds \<open>foo.dag.rescue001\<close>, \<open>foo.dag.rescue002\<close> and
  \<open>foo.dag.rescue010\<close>, \<^verbatim>\<open>find_rescue_dag('foo.dag')\<close> raises \<^verbatim>\<open>IndexError\<close>: the pattern
  given to \<^verbatim>\<open>glob\<close> starts with the two characters \<^verbatim>\<open>%s\<close>, not with the path of the DAG.
\<close>

theorem find_rescue_dag_literal_pattern:
  "find_rescue_dag [''foo.dag.rescue001'', ''foo.dag.rescue002'', ''foo.dag.rescue010''] ''foo.dag''
     = Inl (IndexError ''No rescue DAG files found'')"
  by (simp add: find_rescue_dag_def glob_def has_magic_def)

subsection \<open>Watching the lock file\<close>

text \<open>
  C9. When the lock file \<open>dagfile.lock\<close> does not exist at the call, \<^verbatim>\<open>monitor_dag\<close>
  ends with the \<^verbatim>\<open>OSError\<close> of its first \<^verbatim>\<open>stat\<close>, after no sleep at all; it does not
  return.
\<close>

theorem monitor_dag_lock_absent:
  assumes "dagfile @ ''.lock'' \<notin> set (fs 0)"
  shows "monitor_dag fs dagfile = Some (0, Inl (OSError (dagfile @ ''.lock'')))"
  using assms by (simp add: monitor_dag_def stat_def)

theorem monitor_dag_lock_absent_witness:
  "''foo.dag'' @ ''.lock'' \<notin> set ((\<lambda>n. [''foo.dag'']) 0) \<and>
   monitor_dag (\<lambda>n. [''foo.dag'']) ''foo.dag'' = Some (0, Inl (OSError ''foo.dag.lock''))"
proof -
  have h: "''foo.dag'' @ ''.lock'' \<notin> set ((\<lambda>n::nat. [''foo.dag'']) 0)" by simp
  show ?thesis using monitor_dag_lock_absent [of "''foo.dag''" "\<lambda>n. [''foo.dag'']", OF h] by simp
qed

lemma monitor_loop_leaves:
  "lock \<notin> set (fs (n + Suc d)) \<Longrightarrow> (\<forall>j. n < j \<and> j < n + Suc d \<longrightarrow> lock \<in> set (fs j))
     \<Longrightarrow> monitor_loop fs lock n = Some (n + Suc d)"
proof (induction d arbitrary: n)
  case 0
  then show ?case by (subst monitor_loop.simps) (simp add: stat_def)
next
  case (Suc d)
  have "lock \<in> set (fs (Suc n))" using Suc.prems(2) by simp
  moreover have "monitor_loop fs lock (Suc n) = Some (Suc n + Suc d)"
    using Suc.prems by (intro Suc.IH) auto
  ultimately show ?case by (subst monitor_loop.simps) (simp add: stat_def)
qed

lemma monitor_dag_no_return: "monitor_dag fs dagfile \<noteq> Some (m, Inr ())"
  by (auto simp: monitor_dag_def module_functions_def Let_def
           split: sum.splits Option.bind_splits)

text \<open>
  C10. When the lock file exists at the call and is gone at some later look, \<^verbatim>\<open>monitor_dag\<close>
  ends: it leaves its loop at the first look \<open>n\<close> that finds the file gone, after \<open>n\<close>
  sleeps, and raises \<^verbatim>\<open>NameError\<close> for the name \<^verbatim>\<open>find_rescue\<close>, which the module does not
  bind. No call of \<^verbatim>\<open>monitor_dag\<close> returns normally.
\<close>

theorem monitor_dag_NameError:
  assumes "dagfile @ ''.lock'' \<in> set (fs 0)" and "dagfile @ ''.lock'' \<notin> set (fs k)"
  shows "(\<exists>n. 0 < n \<and> n \<le> k \<and> dagfile @ ''.lock'' \<notin> set (fs n)
             \<and> (\<forall>j<n. dagfile @ ''.lock'' \<in> set (fs j))
             \<and> monitor_dag fs dagfile = Some (n, Inl (NameError ''find_rescue'')))
         \<and> (\<forall>m. monitor_dag fs dagfile \<noteq> Some (m, Inr ()))"
proof -
  define lock where "lock = dagfile @ ''.lock''"
  define n where "n = (LEAST j. lock \<notin> set (fs j))"
  have absent: "lock \<notin> set (fs n)"
    unfolding n_def using assms(2) lock_def by (metis (mono_tags, lifting) LeastI)
  have least: "\<forall>j<n. lock \<in> set (fs j)"
    unfolding n_def using not_less_Least by blast
  have "n \<le> k" unfolding n_def using assms(2) lock_def by (simp add: Least_le)
  have "0 < n" using absent assms(1) lock_def by (cases n) auto
  then obtain d where d: "n = 0 + Suc d" by (cases n) auto
  have "monitor_loop fs lock 0 = Some (0 + Suc d)"
    using absent least unfolding d by (intro monitor_loop_leaves) auto
  then have "monitor_dag fs dagfile = Some (n, Inl (NameError ''find_rescue''))"
    using assms(1) d by (simp add: monitor_dag_def stat_def lock_def module_functions_def)
  with absent least \<open>n \<le> k\<close> \<open>0 < n\<close> monitor_dag_no_return [of fs dagfile]
  show ?thesis unfolding lock_def by blast
qed

theorem monitor_dag_NameError_witness:
  "''foo.dag'' @ ''.lock'' \<in> set ((\<lambda>n. if n < 3 then [''foo.dag.lock''] else []) (0::nat)) \<and>
   ''foo.dag'' @ ''.lock'' \<notin> set ((\<lambda>n. if n < 3 then [''foo.dag.lock''] else []) (5::nat)) \<and>
   monitor_dag (\<lambda>n. if n < 3 then [''foo.dag.lock''] else []) ''foo.dag''
     = Some (3, Inl (NameError ''find_rescue''))"
proof -
  let ?fs = "\<lambda>n::nat. if n < 3 then [''foo.dag.lock''] else []"
  have h1: "''foo.dag'' @ ''.lock'' \<in> set (?fs 0)" by simp
  have h2: "''foo.dag'' @ ''.lock'' \<notin> set (?fs 5)" by simp
  from monitor_dag_NameError [of "''foo.dag''" ?fs 5, OF h1 h2]
  obtain n where n: "''foo.dag'' @ ''.lock'' \<notin> set (?fs n)"
      "\<forall>j<n. ''foo.dag'' @ ''.lock'' \<in> set (?fs j)"
      "monitor_dag ?fs ''foo.dag'' = Some (n, Inl (NameError ''find_rescue''))"
    by blast
  from n(1) have "\<not> n < 3" by (auto split: if_splits)
  moreover have "\<not> 3 < n"
  proof
    assume "3 < n"
    with n(2) have "''foo.dag'' @ ''.lock'' \<in> set (?fs 3)" by blast
    then show False by simp
  qed
  ultimately have "n = 3" by arith
  with n(3) h1 h2 show ?thesis by blast
qed

subsection \<open>The status record\<close>

lemma dict_of_job_raises: "dict_of_job job pairs acc = Inl e \<Longrightarrow> \<exists>k. e = KeyError k"
  by (induction pairs arbitrary: acc) (auto simp: getitem_def split: option.splits)

lemma dict_of_job_returns:
  "\<forall>c \<in> snd ` set pairs. job c \<noteq> None \<Longrightarrow> \<exists>st. dict_of_job job pairs acc = Inr st"
  by (induction pairs arbitrary: acc) (auto simp: getitem_def split: option.splits)

lemma dict_of_job_other:
  "dict_of_job job pairs acc = Inr st \<Longrightarrow> s \<notin> fst ` set pairs \<Longrightarrow> st s = acc s"
  by (induction pairs arbitrary: acc) (auto simp: getitem_def split: option.splits)

lemma dict_of_job_value:
  "dict_of_job job pairs acc = Inr st \<Longrightarrow> distinct (map fst pairs) \<Longrightarrow> (s, c) \<in> set pairs
     \<Longrightarrow> st s = job c \<and> job c \<noteq> None"
proof (induction pairs arbitrary: acc)
  case Nil
  then show ?case by simp
next
  case (Cons p pairs)
  obtain s' c' where p: "p = (s', c')" by (cases p)
  from Cons.prems(1) p obtain v where v: "job c' = Some v"
    and rest: "dict_of_job job pairs (acc(s' \<mapsto> v)) = Inr st"
    by (auto simp: getitem_def split: option.splits)
  show ?case
  proof (cases "(s, c) \<in> set pairs")
    case True
    with Cons.IH [OF rest] Cons.prems(2) show ?thesis by simp
  next
    case False
    with Cons.prems(3) p have eq: "s = s'" "c = c'" by auto
    from Cons.prems(2) p have "s' \<notin> fst ` set pairs" by auto
    with dict_of_job_other [OF rest] eq v show ?thesis by simp
  qed
qed

lemma dict_of_job_dom:
  "dict_of_job job pairs acc = Inr st \<Longrightarrow> dom st = dom acc \<union> fst ` set pairs"
proof (induction pairs arbitrary: acc)
  case Nil
  then show ?case by simp
next
  case (Cons p pairs)
  obtain s' c' where p: "p = (s', c')" by (cases p)
  from Cons.prems p obtain v where "dict_of_job job pairs (acc(s' \<mapsto> v)) = Inr st"
    by (auto simp: getitem_def split: option.splits)
  from Cons.IH [OF this] p show ?case by auto
qed

lemma live_record:
  assumes "\<forall>c \<in> set classads. job c \<noteq> None"
  shows "\<exists>st0. dict_of_job job (zip states classads) Map.empty = Inr st0
           \<and> dom st0 = set states \<and> list_all2 (\<lambda>s c. st0 s = job c) states classads"
proof -
  have "\<forall>c \<in> snd ` set (zip states classads). job c \<noteq> None"
    using assms by (auto dest: set_zip_rightD)
  from dict_of_job_returns [OF this]
  obtain st0 where st0: "dict_of_job job (zip states classads) Map.empty = Inr st0" by blast
  have len: "length states = length classads" by (simp add: classads_def)
  have keys: "fst ` set (zip states classads) = set states"
    using len by (metis list.set_map map_fst_zip)
  have dist: "distinct (map fst (zip states classads))"
    using len by (simp add: states_def)
  have "dom st0 = set states" using dict_of_job_dom [OF st0] keys by simp
  moreover have "list_all2 (\<lambda>s c. st0 s = job c) states classads"
    unfolding list_all2_iff using len dict_of_job_value [OF st0 dist] by auto
  ultimately show ?thesis using st0 by blast
qed


lemma count_nodes_step:
  "count_nodes (node # nodes) st =
     (case node ''JobStatus'' of
        None \<Rightarrow> Inl (KeyError ''JobStatus'')
      | Some js \<Rightarrow>
          if js = 5 then
            (case st ''held'' of None \<Rightarrow> Inl (KeyError ''held'')
             | Some v \<Rightarrow> count_nodes nodes (st(''held'' \<mapsto> v + 1)))
          else if js = 2 then
            (case st ''running'' of None \<Rightarrow> Inl (KeyError ''running'')
             | Some v \<Rightarrow> count_nodes nodes (st(''running'' \<mapsto> v + 1)))
          else if js = 1 then
            (case st ''idle'' of None \<Rightarrow> Inl (KeyError ''idle'')
             | Some v \<Rightarrow> count_nodes nodes (st(''idle'' \<mapsto> v + 1)))
          else count_nodes nodes st)"
  by (cases "node ''JobStatus''"; cases "st ''held''"; cases "st ''running''"; cases "st ''idle''")
     (simp_all add: lexicon_codes increment_def getitem_def del: count_nodes.simps add: count_nodes.simps(2) [of node nodes st])

lemma count_nodes_raises: "count_nodes nodes st = Inl e \<Longrightarrow> \<exists>k. e = KeyError k"
proof (induction nodes arbitrary: st)
  case Nil
  then show ?case by simp
next
  case (Cons node nodes)
  from Cons.prems show ?case
    unfolding count_nodes_step
    by (auto split: option.splits if_splits dest: Cons.IH)
qed

lemma count_nodes_counts:
  assumes "\<forall>node \<in> set nodes. node ''JobStatus'' \<noteq> None"
    and "st ''held'' = Some h" and "st ''running'' = Some r" and "st ''idle'' = Some i"
  shows "\<exists>st'. count_nodes nodes st = Inr st'
           \<and> st' ''held'' = Some (h + int (length (filter (\<lambda>node. node ''JobStatus'' = Some 5) nodes)))
           \<and> st' ''running'' = Some (r + int (length (filter (\<lambda>node. node ''JobStatus'' = Some 2) nodes)))
           \<and> st' ''idle'' = Some (i + int (length (filter (\<lambda>node. node ''JobStatus'' = Some 1) nodes)))
           \<and> (\<forall>k. k \<noteq> ''held'' \<and> k \<noteq> ''running'' \<and> k \<noteq> ''idle'' \<longrightarrow> st' k = st k)"
  using assms
proof (induction nodes arbitrary: st h r i)
  case Nil
  then show ?case by simp
next
  case (Cons node nodes)
  from Cons.prems(1) obtain js where js: "node ''JobStatus'' = Some js" by auto
  have rest: "\<forall>node \<in> set nodes. node ''JobStatus'' \<noteq> None" using Cons.prems(1) by simp
  consider (held) "js = 5" | (running) "js = 2" | (idle) "js = 1"
    | (other) "js \<noteq> 5" "js \<noteq> 2" "js \<noteq> 1" by blast
  then show ?case
  proof cases
    case held
    have step: "count_nodes (node # nodes) st = count_nodes nodes (st(''held'' \<mapsto> h + 1))"
      unfolding count_nodes_step using js held Cons.prems(2) by simp
    have p_held: "(st(''held'' \<mapsto> h + 1)) ''held'' = Some (h + 1)"
      using Cons.prems(2) by simp
    have p_running: "(st(''held'' \<mapsto> h + 1)) ''running'' = Some (r)"
      using Cons.prems(3) by simp
    have p_idle: "(st(''held'' \<mapsto> h + 1)) ''idle'' = Some (i)"
      using Cons.prems(4) by simp
    from Cons.IH [OF rest p_held p_running p_idle]
    obtain st' where st': "count_nodes nodes (st(''held'' \<mapsto> h + 1)) = Inr st'"
      "st' ''held'' = Some (h + 1 + int (length (filter (\<lambda>node. node ''JobStatus'' = Some 5) nodes)))"
      "st' ''running'' = Some (r + int (length (filter (\<lambda>node. node ''JobStatus'' = Some 2) nodes)))"
      "st' ''idle'' = Some (i + int (length (filter (\<lambda>node. node ''JobStatus'' = Some 1) nodes)))"
      "\<forall>k. k \<noteq> ''held'' \<and> k \<noteq> ''running'' \<and> k \<noteq> ''idle'' \<longrightarrow> st' k = (st(''held'' \<mapsto> h + 1)) k"
      by blast
    show ?thesis unfolding step using js held st' by (intro exI [of _ st']) simp
  next
    case running
    have step: "count_nodes (node # nodes) st = count_nodes nodes (st(''running'' \<mapsto> r + 1))"
      unfolding count_nodes_step using js running Cons.prems(3) by simp
    have p_held: "(st(''running'' \<mapsto> r + 1)) ''held'' = Some (h)"
      using Cons.prems(2) by simp
    have p_running: "(st(''running'' \<mapsto> r + 1)) ''running'' = Some (r + 1)"
      using Cons.prems(3) by simp
    have p_idle: "(st(''running'' \<mapsto> r + 1)) ''idle'' = Some (i)"
      using Cons.prems(4) by simp
    from Cons.IH [OF rest p_held p_running p_idle]
    obtain st' where st': "count_nodes nodes (st(''running'' \<mapsto> r + 1)) = Inr st'"
      "st' ''held'' = Some (h + int (length (filter (\<lambda>node. node ''JobStatus'' = Some 5) nodes)))"
      "st' ''running'' = Some (r + 1 + int (length (filter (\<lambda>node. node ''JobStatus'' = Some 2) nodes)))"
      "st' ''idle'' = Some (i + int (length (filter (\<lambda>node. node ''JobStatus'' = Some 1) nodes)))"
      "\<forall>k. k \<noteq> ''held'' \<and> k \<noteq> ''running'' \<and> k \<noteq> ''idle'' \<longrightarrow> st' k = (st(''running'' \<mapsto> r + 1)) k"
      by blast
    show ?thesis unfolding step using js running st' by (intro exI [of _ st']) simp
  next
    case idle
    have step: "count_nodes (node # nodes) st = count_nodes nodes (st(''idle'' \<mapsto> i + 1))"
      unfolding count_nodes_step using js idle Cons.prems(4) by simp
    have p_held: "(st(''idle'' \<mapsto> i + 1)) ''held'' = Some (h)"
      using Cons.prems(2) by simp
    have p_running: "(st(''idle'' \<mapsto> i + 1)) ''running'' = Some (r)"
      using Cons.prems(3) by simp
    have p_idle: "(st(''idle'' \<mapsto> i + 1)) ''idle'' = Some (i + 1)"
      using Cons.prems(4) by simp
    from Cons.IH [OF rest p_held p_running p_idle]
    obtain st' where st': "count_nodes nodes (st(''idle'' \<mapsto> i + 1)) = Inr st'"
      "st' ''held'' = Some (h + int (length (filter (\<lambda>node. node ''JobStatus'' = Some 5) nodes)))"
      "st' ''running'' = Some (r + int (length (filter (\<lambda>node. node ''JobStatus'' = Some 2) nodes)))"
      "st' ''idle'' = Some (i + 1 + int (length (filter (\<lambda>node. node ''JobStatus'' = Some 1) nodes)))"
      "\<forall>k. k \<noteq> ''held'' \<and> k \<noteq> ''running'' \<and> k \<noteq> ''idle'' \<longrightarrow> st' k = (st(''idle'' \<mapsto> i + 1)) k"
      by blast
    show ?thesis unfolding step using js idle st' by (intro exI [of _ st']) simp
  next
    case other
    have step: "count_nodes (node # nodes) st = count_nodes nodes st"
      unfolding count_nodes_step using js other by simp
    from Cons.IH [OF rest Cons.prems(2-4)]
    obtain st' where st': "count_nodes nodes st = Inr st'"
      "st' ''held'' = Some (h + int (length (filter (\<lambda>node. node ''JobStatus'' = Some 5) nodes)))"
      "st' ''running'' = Some (r + int (length (filter (\<lambda>node. node ''JobStatus'' = Some 2) nodes)))"
      "st' ''idle'' = Some (i + int (length (filter (\<lambda>node. node ''JobStatus'' = Some 1) nodes)))"
      "\<forall>k. k \<noteq> ''held'' \<and> k \<noteq> ''running'' \<and> k \<noteq> ''idle'' \<longrightarrow> st' k = st k"
      by blast
    show ?thesis unfolding step using js other st' by (intro exI [of _ st']) simp
  qed
qed

lemma count_nodes_other:
  "count_nodes nodes st = Inr st' \<Longrightarrow> k \<noteq> ''held'' \<Longrightarrow> k \<noteq> ''running'' \<Longrightarrow> k \<noteq> ''idle''
     \<Longrightarrow> st' k = st k"
proof (induction nodes arbitrary: st)
  case Nil
  then show ?case by simp
next
  case (Cons node nodes)
  from Cons.prems(1) obtain st1 where st1: "count_nodes nodes st1 = Inr st'"
    and "st1 = st \<or> (\<exists>v. st1 = st(''held'' \<mapsto> v)) \<or> (\<exists>v. st1 = st(''running'' \<mapsto> v))
          \<or> (\<exists>v. st1 = st(''idle'' \<mapsto> v))"
    unfolding count_nodes_step by (auto split: option.splits if_splits)
  with Cons.IH [OF st1 Cons.prems(2-4)] Cons.prems(2-4) show ?case by auto
qed

lemma detail_sum:
  "int (length (filter (\<lambda>n. f n = Some (5::int)) xs)) + int (length (filter (\<lambda>n. f n = Some 2) xs))
     + int (length (filter (\<lambda>n. f n = Some 1) xs))
   = int (length (filter (\<lambda>n. f n = Some 5 \<or> f n = Some 2 \<or> f n = Some 1) xs))"
  by (induction xs) auto



text \<open>
  C8. In the detailed branch of a live DAG the three detail counters start from zero and
  each subordinate job adds one to at most one of them: \<open>held\<close> is the number of the jobs
  that the detail query returned whose \<open>JobStatus\<close> is the code of \<open>held\<close> in the lexicon,
  and likewise \<open>running\<close> and \<open>idle\<close>. So each is non-negative, their sum is the number of
  jobs in one of the three states, a job in any other state being counted nowhere, and
  the sum is at most the number of jobs returned.
\<close>

theorem detail_counters:
  assumes schedd: "schedd = (case schedd_arg of None \<Rightarrow> htcondor_Schedd | Some s \<Rightarrow> s)"
    and live: "query schedd (ClusterId_eq dagmanid) classads = job # others"
    and counters: "\<forall>c \<in> set classads. job c \<noteq> None"
    and nodes: "nodes = query schedd (DAGManJobId_eq dagmanid) []"
    and js: "\<forall>node \<in> set nodes. node ''JobStatus'' \<noteq> None"
  shows "\<exists>status held running idle.
           get_dag_status htcondor_Schedd dagmanid schedd_arg True = Inr status
         \<and> status ''held'' = Some held \<and> status ''running'' = Some running
         \<and> status ''idle'' = Some idle
         \<and> held = int (length (filter (\<lambda>node. node ''JobStatus'' = JOB_STATUS_MAP ''held'') nodes))
         \<and> running = int (length (filter (\<lambda>node. node ''JobStatus'' = JOB_STATUS_MAP ''running'') nodes))
         \<and> idle = int (length (filter (\<lambda>node. node ''JobStatus'' = JOB_STATUS_MAP ''idle'') nodes))
         \<and> 0 \<le> held \<and> 0 \<le> running \<and> 0 \<le> idle
         \<and> held + running + idle
             = int (length (filter (\<lambda>node. node ''JobStatus'' = JOB_STATUS_MAP ''held''
                                       \<or> node ''JobStatus'' = JOB_STATUS_MAP ''running''
                                       \<or> node ''JobStatus'' = JOB_STATUS_MAP ''idle'') nodes))
         \<and> held + running + idle \<le> int (length nodes)"
proof -
  from live_record [OF counters]
  obtain st0 where st0: "dict_of_job job (zip states classads) Map.empty = Inr st0" by blast
  let ?init = "st0(''held'' \<mapsto> 0, ''running'' \<mapsto> 0, ''idle'' \<mapsto> 0)"
  have run: "get_dag_status htcondor_Schedd dagmanid schedd_arg True = count_nodes nodes ?init"
    using schedd live st0 nodes by (simp add: get_dag_status_def Let_def)
  have i1: "?init ''held'' = Some 0" and i2: "?init ''running'' = Some 0"
    and i3: "?init ''idle'' = Some 0" by simp_all
  let ?h = "int (length (filter (\<lambda>node. node ''JobStatus'' = Some 5) nodes))"
  let ?r = "int (length (filter (\<lambda>node. node ''JobStatus'' = Some 2) nodes))"
  let ?i = "int (length (filter (\<lambda>node. node ''JobStatus'' = Some 1) nodes))"
  from count_nodes_counts [OF js i1 i2 i3]
  obtain st where st: "count_nodes nodes ?init = Inr st"
    "st ''held'' = Some (0 + ?h)" "st ''running'' = Some (0 + ?r)" "st ''idle'' = Some (0 + ?i)"
    by blast
  have sum: "?h + ?r + ?i = int (length (filter (\<lambda>node. node ''JobStatus'' = Some 5
                \<or> node ''JobStatus'' = Some 2 \<or> node ''JobStatus'' = Some 1) nodes))"
    by (rule detail_sum)
  then have le: "?h + ?r + ?i \<le> int (length nodes)" by simp
  show ?thesis
    unfolding run st(1) lexicon_codes
    using st(2-4) sum le
    by (intro exI [of _ st] exI [of _ ?h] exI [of _ ?r] exI [of _ ?i]) simp
qed

theorem detail_counters_witness:
  "query live_schedd (ClusterId_eq 4821) classads = [example_job]
   \<and> list_all (\<lambda>c. example_job c \<noteq> None) classads
   \<and> list_all (\<lambda>node. node ''JobStatus'' \<noteq> None) example_nodes
   \<and> length example_nodes = 5
   \<and> (\<exists>status. get_dag_status finished_schedd 4821 (Some live_schedd) True = Inr status
         \<and> status ''held'' = Some 1 \<and> status ''running'' = Some 2 \<and> status ''idle'' = Some 1)"
proof -
  have h1: "live_schedd = (case Some live_schedd of None \<Rightarrow> finished_schedd | Some s \<Rightarrow> s)" by simp
  from detail_counters [OF h1 example_live(1) example_job_fields example_live(2) [symmetric]
      example_nodes_status]
  obtain status held running idle
    where st: "get_dag_status finished_schedd 4821 (Some live_schedd) True = Inr status"
      "status ''held'' = Some held" "status ''running'' = Some running" "status ''idle'' = Some idle"
      "held = int (length (filter (\<lambda>node. node ''JobStatus'' = JOB_STATUS_MAP ''held'') example_nodes))"
      "running = int (length (filter (\<lambda>node. node ''JobStatus'' = JOB_STATUS_MAP ''running'') example_nodes))"
      "idle = int (length (filter (\<lambda>node. node ''JobStatus'' = JOB_STATUS_MAP ''idle'') example_nodes))"
    by blast
  have "held = 1" "running = 2" "idle = 1"
    unfolding st(5-7) lexicon_codes by (simp_all add: example_nodes_def)
  with st(1-4) have "\<exists>status. get_dag_status finished_schedd 4821 (Some live_schedd) True = Inr status
         \<and> status ''held'' = Some 1 \<and> status ''running'' = Some 2 \<and> status ''idle'' = Some 1"
    by (intro exI [of _ status]) simp
  moreover have "list_all (\<lambda>c. example_job c \<noteq> None) classads"
    using example_job_fields by (simp add: list_all_iff)
  moreover have "list_all (\<lambda>node. node ''JobStatus'' \<noteq> None) example_nodes"
    using example_nodes_status by (simp add: list_all_iff)
  moreover have "length example_nodes = 5" by (simp add: example_nodes_def)
  ultimately show ?thesis using example_live(1) by blast
qed

lemma exitcode_iff_finished:
  assumes "get_dag_status htcondor_Schedd dagmanid schedd_arg detailed = Inr status"
  shows "''exitcode'' \<in> dom status \<longleftrightarrow>
     query (case schedd_arg of None \<Rightarrow> htcondor_Schedd | Some s \<Rightarrow> s) (ClusterId_eq dagmanid) classads = []"
proof (cases "query (case schedd_arg of None \<Rightarrow> htcondor_Schedd | Some s \<Rightarrow> s) (ClusterId_eq dagmanid) classads")
  case Nil
  with assms have "\<exists>st ec. status = st(''exitcode'' \<mapsto> ec)"
    by (auto simp: get_dag_status_def Let_def split: list.splits sum.splits)
  with Nil show ?thesis by auto
next
  case (Cons job others)
  with assms obtain st0 where st0: "dict_of_job job (zip states classads) Map.empty = Inr st0"
    and res: "status = st0 \<or> count_nodes
        (query (case schedd_arg of None \<Rightarrow> htcondor_Schedd | Some s \<Rightarrow> s) (DAGManJobId_eq dagmanid) [])
        (st0(''held'' \<mapsto> 0, ''running'' \<mapsto> 0, ''idle'' \<mapsto> 0)) = Inr status"
    by (auto simp: get_dag_status_def Let_def split: sum.splits if_splits)
  have "dom st0 = fst ` set (zip states classads)" using dict_of_job_dom [OF st0] by simp
  then have "''exitcode'' \<notin> dom st0" by (simp add: zip_states_classads)
  then have e0: "st0 ''exitcode'' = None" by (simp add: domIff)
  from res have "status ''exitcode'' = None"
  proof
    assume "status = st0" with e0 show ?thesis by simp
  next
    assume "count_nodes
        (query (case schedd_arg of None \<Rightarrow> htcondor_Schedd | Some s \<Rightarrow> s) (DAGManJobId_eq dagmanid) [])
        (st0(''held'' \<mapsto> 0, ''running'' \<mapsto> 0, ''idle'' \<mapsto> 0)) = Inr status"
    from count_nodes_other [OF this, of "''exitcode''"] e0 show ?thesis by simp
  qed
  with Cons show ?thesis by (simp add: domIff)
qed



text \<open>
  C4. \<^verbatim>\<open>get_dag_status\<close> raises \<^verbatim>\<open>IndexError\<close> (the error the specification calls
  NotFoundError) exactly when both the live queue and the historical log hold no record for
  the cluster id; the error is the one of \<^verbatim>\<open>[0]\<close> on the empty historical answer and
  reaches the caller. An empty live answer alone does not raise it: it is caught and the
  historical log is asked.
\<close>

theorem get_dag_status_unknown:
  assumes schedd: "schedd = (case schedd_arg of None \<Rightarrow> htcondor_Schedd | Some s \<Rightarrow> s)"
  shows "get_dag_status htcondor_Schedd dagmanid schedd_arg detailed = Inl (IndexError m)
     \<longleftrightarrow> query schedd (ClusterId_eq dagmanid) classads = []
          \<and> history schedd (ClusterId_eq dagmanid) (classads @ [''ExitCode'']) 1 = []
          \<and> m = ''list index out of range''"
proof (cases "query schedd (ClusterId_eq dagmanid) classads")
  case Nil
  show ?thesis
  proof (cases "history schedd (ClusterId_eq dagmanid) (classads @ [''ExitCode'']) 1")
    case Nil
    with \<open>query schedd (ClusterId_eq dagmanid) classads = []\<close> schedd show ?thesis
      by (auto simp: get_dag_status_def Let_def)
  next
    case (Cons job others)
    have "get_dag_status htcondor_Schedd dagmanid schedd_arg detailed \<noteq> Inl (IndexError m)"
      using schedd Nil Cons
      by (auto simp: get_dag_status_def Let_def getitem_def
               split: sum.splits option.splits dest: dict_of_job_raises)
    with Cons show ?thesis by simp
  qed
next
  case (Cons job others)
  have "get_dag_status htcondor_Schedd dagmanid schedd_arg detailed \<noteq> Inl (IndexError m)"
    using schedd Cons
    by (auto simp: get_dag_status_def Let_def
             split: sum.splits if_splits dest: dict_of_job_raises count_nodes_raises)
  with Cons show ?thesis by simp
qed

theorem get_dag_status_unknown_witness:
  "query finished_schedd (ClusterId_eq 7) classads = []
   \<and> history finished_schedd (ClusterId_eq 7) (classads @ [''ExitCode'']) 1 = []
   \<and> get_dag_status live_schedd 7 (Some finished_schedd) True
        = Inl (IndexError ''list index out of range'')"
proof -
  have h1: "finished_schedd = (case Some finished_schedd of None \<Rightarrow> live_schedd | Some s \<Rightarrow> s)"
    by simp
  have q: "query finished_schedd (ClusterId_eq 7) classads = []" by (rule example_finished(1))
  have h: "history finished_schedd (ClusterId_eq 7) (classads @ [''ExitCode'']) 1 = []"
    by (rule example_finished(3))
  from get_dag_status_unknown [where htcondor_Schedd = live_schedd and dagmanid = 7
      and detailed = True and m = "''list index out of range''", OF h1] q h
  have "get_dag_status live_schedd 7 (Some finished_schedd) True
        = Inl (IndexError ''list index out of range'')" by blast
  with q h show ?thesis by blast
qed

subsection \<open>Polling until the DAG has finished\<close>

lemma live_returns:
  assumes "query schedd (ClusterId_eq dagmanid) classads = job # others"
    and "\<forall>c \<in> set classads. job c \<noteq> None"
    and "\<forall>node \<in> set (query schedd (DAGManJobId_eq dagmanid) []). node ''JobStatus'' \<noteq> None"
  shows "\<exists>st. get_dag_status h dagmanid (Some schedd) True = Inr st"
proof -
  from live_record [OF assms(2)]
  obtain st0 where st0: "dict_of_job job (zip states classads) Map.empty = Inr st0" by blast
  let ?init = "st0(''held'' \<mapsto> 0, ''running'' \<mapsto> 0, ''idle'' \<mapsto> 0)"
  have i1: "?init ''held'' = Some 0" and i2: "?init ''running'' = Some 0"
    and i3: "?init ''idle'' = Some 0" by simp_all
  from count_nodes_counts [OF assms(3) i1 i2 i3]
  obtain st where "count_nodes (query schedd (DAGManJobId_eq dagmanid) []) ?init = Inr st"
    by blast
  then show ?thesis using assms(1) st0 by (simp add: get_dag_status_def)
qed

lemma finished_returns:
  assumes "query schedd (ClusterId_eq dagmanid) classads = []"
    and "history schedd (ClusterId_eq dagmanid) (classads @ [''ExitCode'']) 1 = job # others"
    and "\<forall>c \<in> set classads. job c \<noteq> None" and "job ''ExitCode'' \<noteq> None"
  shows "\<exists>st. get_dag_status h dagmanid (Some schedd) detailed = Inr st"
proof -
  from live_record [OF assms(3)]
  obtain st0 where st0: "dict_of_job job (zip states classads) Map.empty = Inr st0" by blast
  from assms(4) obtain ec where "job ''ExitCode'' = Some ec" by auto
  then show ?thesis using assms(1,2) st0 by (simp add: get_dag_status_def getitem_def)
qed

lemma iterate_finishes_from:
  assumes "\<forall>i<n. \<exists>st. get_dag_status (conn (k + i)) cid (Some (conn (k + i))) True = Inr st
                      \<and> ''exitcode'' \<notin> dom st"
    and "get_dag_status (conn (k + n)) cid (Some (conn (k + n))) True = Inr fin"
    and "''exitcode'' \<in> dom fin"
  shows "\<exists>ys. iterate_dag_status_from conn cid k = Some (ys, None) \<and> length ys = Suc n
           \<and> last ys = fin \<and> (\<forall>i<n. ''exitcode'' \<notin> dom (ys ! i))
           \<and> (\<forall>i<n. get_dag_status (conn (k + i)) cid (Some (conn (k + i))) True = Inr (ys ! i))"
  using assms
proof (induction n arbitrary: k)
  case 0
  then have "iterate_dag_status_from conn cid k = Some ([fin], None)"
    by (subst iterate_dag_status_from.simps) simp
  then show ?case by simp
next
  case (Suc n)
  from Suc.prems(1) obtain st where st: "get_dag_status (conn k) cid (Some (conn k)) True = Inr st"
    "''exitcode'' \<notin> dom st" by (metis add.right_neutral zero_less_Suc)
  have later: "\<forall>i<n. \<exists>st. get_dag_status (conn (Suc k + i)) cid (Some (conn (Suc k + i))) True = Inr st
                      \<and> ''exitcode'' \<notin> dom st"
  proof (intro allI impI)
    fix i assume "i < n"
    then have "Suc i < Suc n" by simp
    from Suc.prems(1) [rule_format, OF this]
    show "\<exists>st. get_dag_status (conn (Suc k + i)) cid (Some (conn (Suc k + i))) True = Inr st
                      \<and> ''exitcode'' \<notin> dom st" by simp
  qed
  have fin: "get_dag_status (conn (Suc k + n)) cid (Some (conn (Suc k + n))) True = Inr fin"
    using Suc.prems(2) by simp
  from Suc.IH [OF later fin Suc.prems(3)]
  obtain ys where ys: "iterate_dag_status_from conn cid (Suc k) = Some (ys, None)"
    "length ys = Suc n" "last ys = fin" "\<forall>i<n. ''exitcode'' \<notin> dom (ys ! i)"
    "\<forall>i<n. get_dag_status (conn (Suc k + i)) cid (Some (conn (Suc k + i))) True = Inr (ys ! i)"
    by blast
  have run: "iterate_dag_status_from conn cid k = Some (st # ys, None)"
    using st ys(1) by (subst iterate_dag_status_from.simps) simp
  have "ys \<noteq> []" using ys(2) by auto
  then have l: "last (st # ys) = fin" using ys(3) by simp
  have e: "\<forall>i<Suc n. ''exitcode'' \<notin> dom ((st # ys) ! i)"
    using st(2) ys(4) by (auto simp: nth_Cons split: nat.splits)
  have g: "\<forall>i<Suc n. get_dag_status (conn (k + i)) cid (Some (conn (k + i))) True
              = Inr ((st # ys) ! i)"
    using st(1) ys(5) by (auto simp: nth_Cons split: nat.splits)
  show ?case unfolding run using ys(2) l e g by (intro exI [of _ "st # ys"]) simp
qed

lemma iterate_ends:
  assumes "iterate_dag_status_from conn cid k = Some (ys, raised)"
  shows "(raised = None \<longrightarrow> ys \<noteq> [] \<and> ''exitcode'' \<in> dom (last ys)
            \<and> (\<forall>y \<in> set (butlast ys). ''exitcode'' \<notin> dom y))
       \<and> (raised \<noteq> None \<longrightarrow> (\<forall>y \<in> set ys. ''exitcode'' \<notin> dom y))"
proof -
  let ?P = "\<lambda>(ys :: status list) (raised :: error option).
       (raised = None \<longrightarrow> ys \<noteq> [] \<and> ''exitcode'' \<in> dom (last ys)
            \<and> (\<forall>y \<in> set (butlast ys). ''exitcode'' \<notin> dom y))
       \<and> (raised \<noteq> None \<longrightarrow> (\<forall>y \<in> set ys. ''exitcode'' \<notin> dom y))"
  have "?P (fst r) (snd r)" if run: "iterate_dag_status_from conn cid k = Some r" for r
  proof (rule iterate_dag_status_from.raw_induct
           [where P = "\<lambda>_ _ _ r. ?P (fst r) (snd r)", OF _ run])
    fix f :: "(nat \<Rightarrow> schedd) \<Rightarrow> int \<Rightarrow> nat \<Rightarrow> (status list \<times> error option) option"
      and conn cid n r
    assume ih: "\<And>conn cid n y. f conn cid n = Some y \<Longrightarrow> ?P (fst y) (snd y)"
      and body: "(case get_dag_status (conn n) cid (Some (conn n)) True of
          Inl e \<Rightarrow> Some ([], Some e)
        | Inr status \<Rightarrow>
            if ''exitcode'' \<in> dom status then Some ([status], None)
            else Option.bind (f conn cid (Suc n))
                  (\<lambda>(rest, raised). Some (status # rest, raised))) = Some r"
    show "?P (fst r) (snd r)"
    proof (cases "get_dag_status (conn n) cid (Some (conn n)) True")
      case (Inl e)
      with body show ?thesis by auto
    next
      case (Inr st)
      show ?thesis
      proof (cases "''exitcode'' \<in> dom st")
        case True
        with body Inr show ?thesis by auto
      next
        case False
        with body Inr obtain rest raised' where sub: "f conn cid (Suc n) = Some (rest, raised')"
          and r: "r = (st # rest, raised')"
          by (auto split: Option.bind_splits)
        from ih [OF sub] have "?P rest raised'" by simp
        then show ?thesis unfolding r using False by (cases rest) auto
      qed
    qed
  qed
  from this [OF assms] show ?thesis by simp
qed

lemma example_live_status:
  "map_sum id (\<lambda>st. map st [''total'', ''done'', ''queued'', ''ready'', ''unready'', ''failed'',
                              ''held'', ''running'', ''idle'', ''exitcode''])
     (get_dag_status h 4821 (Some live_schedd) True)
   = Inr [Some 10, Some 3, Some 4, Some 1, Some 2, Some 0, Some 1, Some 2, Some 1, None]"
  by (simp add: get_dag_status_def example_live zip_states_classads getitem_def example_job_def
        example_nodes_def count_nodes_step lexicon_codes del: count_nodes.simps(2))

lemma example_finished_status:
  "map_sum id (\<lambda>st. map st [''total'', ''done'', ''queued'', ''ready'', ''unready'', ''failed'',
                              ''held'', ''running'', ''idle'', ''exitcode''])
     (get_dag_status h 4821 (Some finished_schedd) True)
   = Inr [Some 10, Some 3, Some 4, Some 1, Some 2, Some 0, None, None, None, Some 0]"
  by (simp add: get_dag_status_def finished_schedd_def zip_states_classads getitem_def
        example_job_def)

text \<open>
  C3. Let the DAG be live at the polls \<open>0, ..., n - 1\<close> and finished at the poll \<open>n\<close> (no
  live record, a historical record with the six counters and \<open>ExitCode\<close>). Then
  \<^verbatim>\<open>iterate_dag_status\<close> ends normally after yielding \<open>n + 1\<close> snapshots, the snapshot
  number \<open>i\<close> being the record that \<^verbatim>\<open>get_dag_status\<close> returns at the poll \<open>i\<close>: the last
  one has \<open>exitcode\<close> and no earlier one does. Whenever the generator ends at all, it has
  ended normally exactly when its last snapshot carries \<open>exitcode\<close>, and no snapshot before
  the last carries one. With three live polls and a historical one the sequence has four
  elements.
\<close>

theorem iterate_dag_status_finishes:
  assumes live: "\<forall>i<n. \<exists>job others.
        query (conn i) (ClusterId_eq clusterid) classads = job # others
      \<and> (\<forall>c \<in> set classads. job c \<noteq> None)
      \<and> (\<forall>node \<in> set (query (conn i) (DAGManJobId_eq clusterid) []). node ''JobStatus'' \<noteq> None)"
    and gone: "query (conn n) (ClusterId_eq clusterid) classads = []"
    and hist: "history (conn n) (ClusterId_eq clusterid) (classads @ [''ExitCode'']) 1 = job # others"
    and counters: "\<forall>c \<in> set classads. job c \<noteq> None"
    and exit_code: "job ''ExitCode'' \<noteq> None"
  shows "(\<exists>ys. iterate_dag_status conn clusterid = Some (ys, None) \<and> length ys = Suc n
            \<and> ''exitcode'' \<in> dom (last ys) \<and> (\<forall>i<n. ''exitcode'' \<notin> dom (ys ! i))
            \<and> (\<forall>i\<le>n. get_dag_status (conn i) clusterid (Some (conn i)) True = Inr (ys ! i))
            \<and> get_dag_status (conn n) clusterid (Some (conn n)) True = Inr (last ys))
       \<and> (\<forall>c ys raised. iterate_dag_status c clusterid = Some (ys, raised) \<longrightarrow>
            (raised = None \<longleftrightarrow> ys \<noteq> [] \<and> ''exitcode'' \<in> dom (last ys))
            \<and> (\<forall>y \<in> set (butlast ys). ''exitcode'' \<notin> dom y))"
proof
  have polls: "\<forall>i<n. \<exists>st. get_dag_status (conn (0 + i)) clusterid (Some (conn (0 + i))) True = Inr st
                      \<and> ''exitcode'' \<notin> dom st"
  proof (intro allI impI)
    fix i assume "i < n"
    with live obtain job' others' where l: "query (conn i) (ClusterId_eq clusterid) classads = job' # others'"
      "\<forall>c \<in> set classads. job' c \<noteq> None"
      "\<forall>node \<in> set (query (conn i) (DAGManJobId_eq clusterid) []). node ''JobStatus'' \<noteq> None"
      by blast
    from live_returns [OF l] obtain st
      where st: "get_dag_status (conn i) clusterid (Some (conn i)) True = Inr st" by blast
    from exitcode_iff_finished [OF st] l(1) have "''exitcode'' \<notin> dom st" by simp
    with st show "\<exists>st. get_dag_status (conn (0 + i)) clusterid (Some (conn (0 + i))) True = Inr st
                      \<and> ''exitcode'' \<notin> dom st" by simp
  qed
  from finished_returns [OF gone hist counters exit_code] obtain fin
    where fin: "get_dag_status (conn n) clusterid (Some (conn n)) True = Inr fin" by blast
  from exitcode_iff_finished [OF fin] gone have e: "''exitcode'' \<in> dom fin" by simp
  have fin0: "get_dag_status (conn (0 + n)) clusterid (Some (conn (0 + n))) True = Inr fin"
    using fin by simp
  from iterate_finishes_from [OF polls fin0 e]
  obtain ys where ys: "iterate_dag_status_from conn clusterid 0 = Some (ys, None)"
    "length ys = Suc n" "last ys = fin" "\<forall>i<n. ''exitcode'' \<notin> dom (ys ! i)"
    "\<forall>i<n. get_dag_status (conn (0 + i)) clusterid (Some (conn (0 + i))) True = Inr (ys ! i)"
    by blast
  from ys(2) have "ys \<noteq> []" by auto
  then have "last ys = ys ! n" using ys(2) by (simp add: last_conv_nth)
  with ys(3) fin have at_n: "get_dag_status (conn n) clusterid (Some (conn n)) True = Inr (ys ! n)"
    by simp
  have each: "\<forall>i\<le>n. get_dag_status (conn i) clusterid (Some (conn i)) True = Inr (ys ! i)"
  proof (intro allI impI)
    fix i assume "i \<le> n"
    then consider "i < n" | "i = n" by linarith
    then show "get_dag_status (conn i) clusterid (Some (conn i)) True = Inr (ys ! i)"
    proof cases
      case 1
      with ys(5) show ?thesis by simp
    next
      case 2
      with at_n show ?thesis by simp
    qed
  qed
  from ys(1-4) e fin each
  show "\<exists>ys. iterate_dag_status conn clusterid = Some (ys, None) \<and> length ys = Suc n
            \<and> ''exitcode'' \<in> dom (last ys) \<and> (\<forall>i<n. ''exitcode'' \<notin> dom (ys ! i))
            \<and> (\<forall>i\<le>n. get_dag_status (conn i) clusterid (Some (conn i)) True = Inr (ys ! i))
            \<and> get_dag_status (conn n) clusterid (Some (conn n)) True = Inr (last ys)"
    by (intro exI [of _ ys]) (simp add: iterate_dag_status_def)
next
  show "\<forall>c ys raised. iterate_dag_status c clusterid = Some (ys, raised) \<longrightarrow>
            (raised = None \<longleftrightarrow> ys \<noteq> [] \<and> ''exitcode'' \<in> dom (last ys))
            \<and> (\<forall>y \<in> set (butlast ys). ''exitcode'' \<notin> dom y)"
  proof (intro allI impI)
    fix c ys raised assume "iterate_dag_status c clusterid = Some (ys, raised)"
    then have "iterate_dag_status_from c clusterid 0 = Some (ys, raised)"
      by (simp add: iterate_dag_status_def)
    from iterate_ends [OF this]
    have a: "raised = None \<longrightarrow> ys \<noteq> [] \<and> ''exitcode'' \<in> dom (last ys)
            \<and> (\<forall>y \<in> set (butlast ys). ''exitcode'' \<notin> dom y)"
      and b: "raised \<noteq> None \<longrightarrow> (\<forall>y \<in> set ys. ''exitcode'' \<notin> dom y)" by blast+
    have c: "ys \<noteq> [] \<and> ''exitcode'' \<in> dom (last ys) \<longrightarrow> raised = None"
    proof (intro impI, rule ccontr)
      assume l: "ys \<noteq> [] \<and> ''exitcode'' \<in> dom (last ys)" and "raised \<noteq> None"
      with b have "\<forall>y \<in> set ys. ''exitcode'' \<notin> dom y" by simp
      moreover from l have "last ys \<in> set ys" by simp
      ultimately have "''exitcode'' \<notin> dom (last ys)" by (rule bspec)
      with l show False by simp
    qed
    have d: "\<forall>y \<in> set (butlast ys). ''exitcode'' \<notin> dom y"
    proof (cases raised)
      case None
      with a show ?thesis by simp
    next
      case (Some e)
      with b have all: "\<forall>y \<in> set ys. ''exitcode'' \<notin> dom y" by simp
      show ?thesis
      proof
        fix y assume "y \<in> set (butlast ys)"
        then have "y \<in> set ys" by (rule in_set_butlastD)
        with all show "''exitcode'' \<notin> dom y" by (rule bspec)
      qed
    qed
    from a c d show "(raised = None \<longleftrightarrow> ys \<noteq> [] \<and> ''exitcode'' \<in> dom (last ys))
            \<and> (\<forall>y \<in> set (butlast ys). ''exitcode'' \<notin> dom y)" by (intro conjI iffI) simp_all
  qed
qed

theorem iterate_dag_status_finishes_witness:
  "list_all (\<lambda>i. query (scripted i) (ClusterId_eq 4821) classads = [example_job]
              \<and> list_all (\<lambda>node. node ''JobStatus'' \<noteq> None)
                   (query (scripted i) (DAGManJobId_eq 4821) [])) [0, 1, 2]
   \<and> query (scripted 3) (ClusterId_eq 4821) classads = []
   \<and> history (scripted 3) (ClusterId_eq 4821) (classads @ [''ExitCode'']) 1
        = [example_job(''ExitCode'' \<mapsto> 0)]
   \<and> (\<exists>ys. iterate_dag_status scripted 4821 = Some (ys, None) \<and> length ys = 4
         \<and> list_all (\<lambda>y. map y [''total'', ''done'', ''queued'', ''ready'', ''unready'', ''failed'',
                                   ''held'', ''running'', ''idle'', ''exitcode'']
               = [Some 10, Some 3, Some 4, Some 1, Some 2, Some 0, Some 1, Some 2, Some 1, None])
             (butlast ys)
         \<and> map (last ys) [''total'', ''done'', ''queued'', ''ready'', ''unready'', ''failed'',
                            ''held'', ''running'', ''idle'', ''exitcode'']
             = [Some 10, Some 3, Some 4, Some 1, Some 2, Some 0, None, None, None, Some 0])"
proof -
  let ?job = "example_job(''ExitCode'' \<mapsto> 0)"
  let ?keys = "[''total'', ''done'', ''queued'', ''ready'', ''unready'', ''failed'',
                ''held'', ''running'', ''idle'', ''exitcode'']"
  let ?live = "[Some 10, Some 3, Some 4, Some 1, Some 2, Some 0, Some 1, Some 2, Some 1, None]
      :: int option list"
  let ?fin = "[Some 10, Some 3, Some 4, Some 1, Some 2, Some 0, None, None, None, Some 0]
      :: int option list"
  have s3: "scripted 3 = finished_schedd" by (simp add: scripted_def)
  have s012: "scripted 0 = live_schedd" "scripted 1 = live_schedd" "scripted 2 = live_schedd"
    by (simp_all add: scripted_def)
  have live: "\<forall>i<3. \<exists>job others.
        query (scripted i) (ClusterId_eq 4821) classads = job # others
      \<and> (\<forall>c \<in> set classads. job c \<noteq> None)
      \<and> (\<forall>node \<in> set (query (scripted i) (DAGManJobId_eq 4821) []). node ''JobStatus'' \<noteq> None)"
  proof (intro allI impI)
    fix i :: nat assume "i < 3"
    then have s: "scripted i = live_schedd" by (simp add: scripted_def)
    show "\<exists>job others.
        query (scripted i) (ClusterId_eq 4821) classads = job # others
      \<and> (\<forall>c \<in> set classads. job c \<noteq> None)
      \<and> (\<forall>node \<in> set (query (scripted i) (DAGManJobId_eq 4821) []). node ''JobStatus'' \<noteq> None)"
      unfolding s example_live
      using example_job_fields example_nodes_status
      by (intro exI [of _ example_job] exI [of _ "[]"]) simp
  qed
  have gone: "query (scripted 3) (ClusterId_eq 4821) classads = []"
    unfolding s3 by (rule example_finished(1))
  have hist: "history (scripted 3) (ClusterId_eq 4821) (classads @ [''ExitCode'']) 1 = ?job # []"
    unfolding s3 by (rule example_finished(2))
  have h4: "\<forall>c \<in> set classads. ?job c \<noteq> None"
    by (simp add: classads_eq example_job_def)
  have h5: "?job ''ExitCode'' \<noteq> None" by simp
  from iterate_dag_status_finishes [OF live gone hist h4 h5, THEN conjunct1]
  obtain ys where ys: "iterate_dag_status scripted 4821 = Some (ys, None)" "length ys = Suc 3"
    and each: "\<forall>i\<le>3. get_dag_status (scripted i) 4821 (Some (scripted i)) True = Inr (ys ! i)"
    by blast
  from ys(2) have "length ys = Suc (Suc (Suc (Suc 0)))" by simp
  then obtain y0 y1 y2 y3 where shape: "ys = [y0, y1, y2, y3]"
    by (auto simp: length_Suc_conv)
  have g0: "get_dag_status live_schedd 4821 (Some live_schedd) True = Inr y0"
    using each [rule_format, of 0] shape s012 by simp
  have g1: "get_dag_status live_schedd 4821 (Some live_schedd) True = Inr y1"
    using each [rule_format, of 1] shape s012 by simp
  have g2: "get_dag_status live_schedd 4821 (Some live_schedd) True = Inr y2"
    using each [rule_format, of 2] shape s012 by simp
  have g3: "get_dag_status finished_schedd 4821 (Some finished_schedd) True = Inr y3"
    using each [rule_format, of 3] shape s3 by simp
  have v0: "map y0 ?keys = ?live" using example_live_status [of live_schedd] unfolding g0 by simp
  have v1: "map y1 ?keys = ?live" using example_live_status [of live_schedd] unfolding g1 by simp
  have v2: "map y2 ?keys = ?live" using example_live_status [of live_schedd] unfolding g2 by simp
  have v3: "map y3 ?keys = ?fin"
    using example_finished_status [of finished_schedd] unfolding g3 by simp
  have "\<exists>ys. iterate_dag_status scripted 4821 = Some (ys, None) \<and> length ys = 4
         \<and> list_all (\<lambda>y. map y ?keys = ?live) (butlast ys) \<and> map (last ys) ?keys = ?fin"
    using ys(1) v0 v1 v2 v3 unfolding shape by (intro exI [of _ "[y0, y1, y2, y3]"]) simp
  moreover have "list_all (\<lambda>i. query (scripted i) (ClusterId_eq 4821) classads = [example_job]
              \<and> list_all (\<lambda>node. node ''JobStatus'' \<noteq> None)
                   (query (scripted i) (DAGManJobId_eq 4821) [])) [0, 1, 2]"
    using example_nodes_status by (simp add: scripted_def example_live list_all_iff)
  ultimately show ?thesis using gone hist by blast
qed

subsection \<open>Submission\<close>

lemma unicode_of_phrase:
  "unicode_of ''submitted to cluster ''
     = unicode_of ''submitted'' @ [32] @ unicode_of ''to'' @ [32] @ unicode_of ''cluster ''"
  by (simp add: unicode_of_def)

lemma lookbehind_iff:
  "lookbehind p \<longleftrightarrow>
     (\<exists>a w1 w2. p = a @ unicode_of ''submitted'' @ [w1] @ unicode_of ''to'' @ [w2]
                      @ unicode_of ''cluster '' \<and> isspace w1 \<and> isspace w2)"
proof
  assume lb: "lookbehind p"
  define m where "m = drop (length p - length re_lookbehind) p"
  have p: "p = take (length p - length re_lookbehind) p @ m" by (simp add: m_def)
  from lb have "list_all2 item_matches re_lookbehind m" by (simp add: lookbehind_def m_def)
  then have "\<exists>w1 w2. m = unicode_of ''submitted'' @ [w1] @ unicode_of ''to'' @ [w2]
                          @ unicode_of ''cluster '' \<and> isspace w1 \<and> isspace w2"
    by (auto simp: re_lookbehind_def unicode_of_def list_all2_Cons1)
  with p show "\<exists>a w1 w2. p = a @ unicode_of ''submitted'' @ [w1] @ unicode_of ''to'' @ [w2]
                      @ unicode_of ''cluster '' \<and> isspace w1 \<and> isspace w2"
    by metis
next
  assume "\<exists>a w1 w2. p = a @ unicode_of ''submitted'' @ [w1] @ unicode_of ''to'' @ [w2]
                      @ unicode_of ''cluster '' \<and> isspace w1 \<and> isspace w2"
  then obtain a w1 w2
    where p: "p = a @ unicode_of ''submitted'' @ [w1] @ unicode_of ''to'' @ [w2]
                      @ unicode_of ''cluster ''"
      and w: "isspace w1" "isspace w2" by blast
  have len: "length re_lookbehind = 21" by (simp add: re_lookbehind_def unicode_of_def)
  have "drop (length p - length re_lookbehind) p
      = unicode_of ''submitted'' @ [w1] @ unicode_of ''to'' @ [w2] @ unicode_of ''cluster ''"
    unfolding len p by (simp add: unicode_of_def)
  moreover have "list_all2 item_matches re_lookbehind
      (unicode_of ''submitted'' @ [w1] @ unicode_of ''to'' @ [w2] @ unicode_of ''cluster '')"
    using w by (simp add: re_lookbehind_def unicode_of_def)
  moreover have "length re_lookbehind \<le> length p" unfolding len p by (simp add: unicode_of_def)
  ultimately show "lookbehind p" by (simp add: lookbehind_def)
qed

lemma search_from_None:
  "search_from p s = None \<longleftrightarrow> (\<forall>a c b. s = a @ c # b \<longrightarrow> \<not> (lookbehind (p @ a) \<and> isdigit c))"
proof (induction s arbitrary: p)
  case Nil
  then show ?case by simp
next
  case (Cons x xs)
  have split: "(\<forall>a c b. x # xs = a @ c # b \<longrightarrow> \<not> (lookbehind (p @ a) \<and> isdigit c))
      \<longleftrightarrow> \<not> (lookbehind p \<and> isdigit x)
          \<and> (\<forall>a c b. xs = a @ c # b \<longrightarrow> \<not> (lookbehind ((p @ [x]) @ a) \<and> isdigit c))"
    (is "?L \<longleftrightarrow> ?R")
  proof
    assume l: ?L
    have "\<not> (lookbehind p \<and> isdigit x)" using l [rule_format, of "[]" x xs] by simp
    moreover have "\<not> (lookbehind ((p @ [x]) @ a) \<and> isdigit c)" if "xs = a @ c # b" for a c b
      using l [rule_format, of "x # a" c b] that by simp
    ultimately show ?R by blast
  next
    assume r: ?R
    show ?L
    proof (intro allI impI)
      fix a c b assume eq: "x # xs = a @ c # b"
      show "\<not> (lookbehind (p @ a) \<and> isdigit c)"
      proof (cases a)
        case Nil
        with eq r show ?thesis by simp
      next
        case (Cons y a')
        with eq have "y = x" "xs = a' @ c # b" by simp_all
        with r Cons show ?thesis by (metis append.assoc append_Cons append_Nil)
      qed
    qed
  qed
  show ?case unfolding split using Cons.IH [of "p @ [x]"] by simp
qed

lemma search_from_first:
  assumes "lookbehind (p @ a)" and "ds \<noteq> []" and "list_all isdigit ds"
    and "rest = [] \<or> \<not> isdigit (hd rest)"
    and "\<forall>a' c b'. a = a' @ c # b' \<longrightarrow> \<not> (lookbehind (p @ a') \<and> isdigit c)"
  shows "search_from p (a @ ds @ rest) = Some ds"
  using assms
proof (induction a arbitrary: p)
  case Nil
  from Nil.prems(2) obtain d ds' where ds: "ds = d # ds'" by (cases ds) auto
  have "takeWhile isdigit (ds @ rest) = ds"
    using Nil.prems(3,4) by (cases rest) (auto simp: list_all_iff takeWhile_append2 takeWhile_tail)
  with Nil.prems(1,3) ds show ?case by simp
next
  case (Cons x a)
  have no: "\<not> (lookbehind p \<and> isdigit x)"
    using Cons.prems(5) [rule_format, of "[]" x a] by simp
  have later: "\<forall>a' c b'. a = a' @ c # b' \<longrightarrow> \<not> (lookbehind ((p @ [x]) @ a') \<and> isdigit c)"
  proof (intro allI impI)
    fix a' c b' assume "a = a' @ c # b'"
    then show "\<not> (lookbehind ((p @ [x]) @ a') \<and> isdigit c)"
      using Cons.prems(5) [rule_format, of "x # a'" c b'] by simp
  qed
  have "search_from (p @ [x]) (a @ ds @ rest) = Some ds"
    using Cons.prems(1-4) later by (intro Cons.IH) simp_all
  with no show ?case by auto
qed

lemma search_from_Some:
  "search_from p s = Some g \<Longrightarrow>
     \<exists>a b. s = a @ g @ b \<and> lookbehind (p @ a) \<and> g \<noteq> [] \<and> list_all isdigit g
           \<and> (b = [] \<or> \<not> isdigit (hd b))"
proof (induction s arbitrary: p)
  case Nil
  then show ?case by simp
next
  case (Cons x xs)
  show ?case
  proof (cases "lookbehind p \<and> isdigit x")
    case True
    with Cons.prems have g: "g = takeWhile isdigit (x # xs)" by simp
    let ?b = "dropWhile isdigit (x # xs)"
    have "x # xs = [] @ g @ ?b" unfolding g by simp
    moreover have "g \<noteq> []" using True g by simp
    moreover have "list_all isdigit g" unfolding g list_all_iff by (metis set_takeWhileD)
    moreover have "?b = [] \<or> \<not> isdigit (hd ?b)" by (metis hd_dropWhile)
    ultimately show ?thesis using True by (metis append.right_neutral)
  next
    case False
    with Cons.prems have "search_from (p @ [x]) xs = Some g" by auto
    from Cons.IH [OF this] obtain a b where "xs = a @ g @ b" "lookbehind ((p @ [x]) @ a)"
      "g \<noteq> []" "list_all isdigit g" "b = [] \<or> \<not> isdigit (hd b)" by blast
    then show ?thesis by (intro exI [of _ "x # a"] exI [of _ b]) simp
  qed
qed

lemma py_int_digits:
  assumes "g \<noteq> []" and "list_all isdigit g"
  shows "(length g \<le> int_max_str_digits \<longrightarrow> (\<exists>n. py_int g = Inr n \<and> 0 \<le> n))
       \<and> (int_max_str_digits < length g \<longrightarrow>
            py_int g = Inl (ValueError ''Exceeds the limit (4300 digits) for integer string conversion''))"
proof -
  have "0 \<le> foldl (\<lambda>n c. 10 * n + digit_value c) k s" if "0 \<le> k" "list_all isdigit s"
    for k and s :: unicode
    using that by (induction s arbitrary: k) (auto simp: digit_value_def isdigit_def)
  from this [of 0 g] assms show ?thesis by (simp add: py_int_def)
qed

lemma search_None_iff:
  "re_dagman_cluster_search out = None \<longleftrightarrow>
     \<not> (\<exists>a w1 w2 d b. out = a @ unicode_of ''submitted'' @ [w1] @ unicode_of ''to'' @ [w2]
                            @ unicode_of ''cluster '' @ d # b
           \<and> isspace w1 \<and> isspace w2 \<and> isdigit d)"
proof -
  define mk where "mk w1 w2 = unicode_of ''submitted'' @ [w1] @ unicode_of ''to'' @ [w2]
      @ unicode_of ''cluster ''" for w1 w2
  have lb: "lookbehind p \<longleftrightarrow> (\<exists>a w1 w2. p = a @ mk w1 w2 \<and> isspace w1 \<and> isspace w2)" for p
    unfolding lookbehind_iff mk_def ..
  have none: "re_dagman_cluster_search out = None
      \<longleftrightarrow> (\<forall>p c b. out = p @ c # b \<longrightarrow> \<not> (lookbehind p \<and> isdigit c))"
    unfolding re_dagman_cluster_search_def search_from_None by simp
  have "(\<forall>p c b. out = p @ c # b \<longrightarrow> \<not> (lookbehind p \<and> isdigit c))
      \<longleftrightarrow> \<not> (\<exists>a w1 w2 d b. out = (a @ mk w1 w2) @ d # b \<and> isspace w1 \<and> isspace w2 \<and> isdigit d)"
    unfolding lb by blast
  then show ?thesis unfolding none mk_def by simp
qed

text \<open>
  C6. \<^verbatim>\<open>submit_dag\<close> reads the cluster id from the captured output by the pattern
  \<open>submitted\<close>, a white-space character, \<open>to\<close>, a white-space character, \<open>cluster\<close>, a blank
  and ASCII digits; the white space is that of Unicode. A failure of the subprocess is
  passed on unchanged. Otherwise the call raises the \<^verbatim>\<open>AttributeError\<close> with the message
  of the handler (the error the specification calls SubmissionParseError) exactly when
  the output has no such occurrence; when it has one, the call returns a non-negative
  integer, or raises the \<^verbatim>\<open>ValueError\<close> of \<^verbatim>\<open>int\<close> for a run of more digits than the
  interpreter converts. When the output is some text, \<open>submitted to cluster\<close>, a run of
  digits that no digit follows, and the pattern matches nowhere before these digits, the
  result is the number the digits write, if they are at most \<open>int_max_str_digits\<close>: 4821
  for \<open>...submitted to cluster 4821...\<close>.
\<close>

theorem submit_dag_cluster_id:
  assumes exe: "which ''condor_submit_dag'' = Inr exe"
    and cmd: "cmd = [exe] @ (if force then [''-force''] else []) @ [dagfile]"
  shows "(\<forall>e. shell cmd = Inl e \<longrightarrow> submit_dag which shell dagfile force = Inl e)
     \<and> (\<forall>out. shell cmd = Inr out \<longrightarrow>
          (submit_dag which shell dagfile force
             = Inl (AttributeError ''Failed to extract DAG cluster ID from condor_submit_dag output'')
           \<longleftrightarrow> \<not> (\<exists>a w1 w2 d b. out = a @ unicode_of ''submitted'' @ [w1] @ unicode_of ''to''
                        @ [w2] @ unicode_of ''cluster '' @ d # b
                     \<and> isspace w1 \<and> isspace w2 \<and> isdigit d))
        \<and> ((\<exists>n. submit_dag which shell dagfile force = Inr n \<and> 0 \<le> n)
             \<or> submit_dag which shell dagfile force
                  = Inl (ValueError ''Exceeds the limit (4300 digits) for integer string conversion'')
           \<longleftrightarrow> (\<exists>a w1 w2 d b. out = a @ unicode_of ''submitted'' @ [w1] @ unicode_of ''to''
                        @ [w2] @ unicode_of ''cluster '' @ d # b
                     \<and> isspace w1 \<and> isspace w2 \<and> isdigit d))
        \<and> (\<forall>pre ds rest. out = pre @ unicode_of ''submitted to cluster '' @ ds @ rest
              \<and> ds \<noteq> [] \<and> list_all isdigit ds \<and> (rest = [] \<or> \<not> isdigit (hd rest))
              \<and> re_dagman_cluster_search (pre @ unicode_of ''submitted to cluster '') = None
            \<longrightarrow> submit_dag which shell dagfile force
                  = (if length ds \<le> int_max_str_digits
                     then Inr (foldl (\<lambda>n c. 10 * n + digit_value c) 0 ds)
                     else Inl (ValueError
                       ''Exceeds the limit (4300 digits) for integer string conversion''))))"
proof (intro conjI allI impI)
  fix e assume "shell cmd = Inl e"
  then show "submit_dag which shell dagfile force = Inl e"
    using exe cmd by (simp add: submit_dag_def)
next
  fix out assume out: "shell cmd = Inr out"
  have run: "submit_dag which shell dagfile force =
      (case re_dagman_cluster_search out of
         None \<Rightarrow> Inl (AttributeError ''Failed to extract DAG cluster ID from condor_submit_dag output'')
       | Some matched \<Rightarrow> py_int matched)"
    using exe cmd out by (simp add: submit_dag_def)
  have some: "(\<exists>n. py_int g = Inr n \<and> 0 \<le> n)
      \<or> py_int g = Inl (ValueError ''Exceeds the limit (4300 digits) for integer string conversion'')"
    if "re_dagman_cluster_search out = Some g" for g
  proof -
    from that search_from_Some [of "[]" out g] have "g \<noteq> []" "list_all isdigit g"
      by (auto simp: re_dagman_cluster_search_def)
    from py_int_digits [OF this] show ?thesis by (cases "length g \<le> int_max_str_digits") auto
  qed
  define occ where "occ \<longleftrightarrow>
      (\<exists>a w1 w2 d b. out = a @ unicode_of ''submitted'' @ [w1] @ unicode_of ''to''
                        @ [w2] @ unicode_of ''cluster '' @ d # b
           \<and> isspace w1 \<and> isspace w2 \<and> isdigit d)"
  define parse_error where "parse_error
      = AttributeError ''Failed to extract DAG cluster ID from condor_submit_dag output''"
  define too_long where "too_long
      = ValueError ''Exceeds the limit (4300 digits) for integer string conversion''"
  have distinct_errors: "parse_error \<noteq> too_long" by (simp add: parse_error_def too_long_def)
  have none_iff: "re_dagman_cluster_search out = None \<longleftrightarrow> \<not> occ"
    unfolding occ_def by (rule search_None_iff)
  have both: "(submit_dag which shell dagfile force = Inl parse_error \<longleftrightarrow> \<not> occ)
        \<and> ((\<exists>n. submit_dag which shell dagfile force = Inr n \<and> 0 \<le> n)
             \<or> submit_dag which shell dagfile force = Inl too_long \<longleftrightarrow> occ)"
  proof (cases "re_dagman_cluster_search out")
    case None
    with none_iff have "\<not> occ" by simp
    moreover from None have "submit_dag which shell dagfile force = Inl parse_error"
      unfolding run parse_error_def by simp
    ultimately show ?thesis using distinct_errors by simp
  next
    case (Some g)
    with none_iff have occ by simp
    moreover from some [OF Some] Some
    have "(\<exists>n. submit_dag which shell dagfile force = Inr n \<and> 0 \<le> n)
        \<or> submit_dag which shell dagfile force = Inl too_long"
      unfolding run too_long_def by simp
    ultimately show ?thesis using distinct_errors by auto
  qed
  from both show "submit_dag which shell dagfile force
             = Inl (AttributeError ''Failed to extract DAG cluster ID from condor_submit_dag output'')
           \<longleftrightarrow> \<not> (\<exists>a w1 w2 d b. out = a @ unicode_of ''submitted'' @ [w1] @ unicode_of ''to''
                        @ [w2] @ unicode_of ''cluster '' @ d # b
                     \<and> isspace w1 \<and> isspace w2 \<and> isdigit d)"
    unfolding occ_def parse_error_def by (rule conjunct1)
  from both show "(\<exists>n. submit_dag which shell dagfile force = Inr n \<and> 0 \<le> n)
             \<or> submit_dag which shell dagfile force
                  = Inl (ValueError ''Exceeds the limit (4300 digits) for integer string conversion'')
           \<longleftrightarrow> (\<exists>a w1 w2 d b. out = a @ unicode_of ''submitted'' @ [w1] @ unicode_of ''to''
                        @ [w2] @ unicode_of ''cluster '' @ d # b
                     \<and> isspace w1 \<and> isspace w2 \<and> isdigit d)"
    unfolding occ_def too_long_def by (rule conjunct2)
next
  fix out pre ds rest
  assume out: "shell cmd = Inr out"
    and h: "out = pre @ unicode_of ''submitted to cluster '' @ ds @ rest
              \<and> ds \<noteq> [] \<and> list_all isdigit ds \<and> (rest = [] \<or> \<not> isdigit (hd rest))
              \<and> re_dagman_cluster_search (pre @ unicode_of ''submitted to cluster '') = None"
  have "isspace 32" by (simp add: isspace_def)
  then have lb: "lookbehind ([] @ pre @ unicode_of ''submitted to cluster '')"
    unfolding lookbehind_iff unicode_of_phrase
    by (intro exI [of _ pre] exI [of _ 32]) simp
  have first: "\<forall>a' c b'. pre @ unicode_of ''submitted to cluster '' = a' @ c # b'
      \<longrightarrow> \<not> (lookbehind ([] @ a') \<and> isdigit c)"
    using h search_from_None [of "[]" "pre @ unicode_of ''submitted to cluster ''"]
    by (simp add: re_dagman_cluster_search_def)
  from h have "search_from [] ((pre @ unicode_of ''submitted to cluster '') @ ds @ rest) = Some ds"
    by (intro search_from_first lb first) simp_all
  then have found: "re_dagman_cluster_search out = Some ds"
    using h by (simp add: re_dagman_cluster_search_def)
  from h have "py_int ds = (if length ds \<le> int_max_str_digits
                     then Inr (foldl (\<lambda>n c. 10 * n + digit_value c) 0 ds)
                     else Inl (ValueError
                       ''Exceeds the limit (4300 digits) for integer string conversion''))"
    by (simp add: py_int_def)
  with found show "submit_dag which shell dagfile force
                  = (if length ds \<le> int_max_str_digits
                     then Inr (foldl (\<lambda>n c. 10 * n + digit_value c) 0 ds)
                     else Inl (ValueError
                       ''Exceeds the limit (4300 digits) for integer string conversion''))"
    using exe cmd out by (simp add: submit_dag_def)
qed

theorem submit_dag_cluster_id_witness:
  "submit_dag (\<lambda>name. Inr (''/usr/bin/'' @ name))
      (\<lambda>cmd. Inr (unicode_of ''...submitted to cluster 4821...'' @ [10])) ''foo.dag'' False
        = Inr 4821
   \<and> submit_dag (\<lambda>name. Inr (''/usr/bin/'' @ name))
      (\<lambda>cmd. Inl (CalledProcessError 1)) ''foo.dag'' False = Inl (CalledProcessError 1)
   \<and> submit_dag (\<lambda>name. Inr (''/usr/bin/'' @ name))
      (\<lambda>cmd. Inr (unicode_of ''ERROR: submit failed'')) ''foo.dag'' False
        = Inl (AttributeError ''Failed to extract DAG cluster ID from condor_submit_dag output'')
   \<and> submit_dag (\<lambda>name. Inr (''/usr/bin/'' @ name))
      (\<lambda>cmd. Inr (unicode_of ''submitted'' @ [0x1F] @ unicode_of ''to'' @ [0x2003]
                    @ unicode_of ''cluster 12''))
      ''foo.dag'' False = Inr 12
   \<and> submit_dag (\<lambda>name. Inr (''/usr/bin/'' @ name))
      (\<lambda>cmd. Inr (unicode_of ''submitted to cluster '' @ replicate 4301 49)) ''foo.dag'' False
        = Inl (ValueError ''Exceeds the limit (4300 digits) for integer string conversion'')"
proof -
  let ?which = "\<lambda>name. Inr (''/usr/bin/'' @ name) :: error + string"
  let ?cmd = "[''/usr/bin/condor_submit_dag''] @ (if False then [''-force''] else []) @ [''foo.dag'']"
  have exe: "?which ''condor_submit_dag'' = Inr ''/usr/bin/condor_submit_dag''" by simp
  have cmd: "?cmd = [''/usr/bin/condor_submit_dag''] @ (if False then [''-force''] else []) @ [''foo.dag'']"
    by simp
  let ?out = "unicode_of ''...submitted to cluster 4821...'' @ [10]"
  let ?ok = "\<lambda>cmd :: string list. Inr ?out :: error + unicode"
  let ?bad = "\<lambda>cmd :: string list. Inl (CalledProcessError 1) :: error + unicode"
  have early: "re_dagman_cluster_search (unicode_of ''...'' @ unicode_of ''submitted to cluster '') = None"
    by (simp add: re_dagman_cluster_search_def unicode_of_def isdigit_def)
  have shape: "?out
      = unicode_of ''...'' @ unicode_of ''submitted to cluster '' @ unicode_of ''4821''
          @ (unicode_of ''...'' @ [10])
      \<and> unicode_of ''4821'' \<noteq> [] \<and> list_all isdigit (unicode_of ''4821'')
      \<and> (unicode_of ''...'' @ [10] = [] \<or> \<not> isdigit (hd (unicode_of ''...'' @ [10])))
      \<and> re_dagman_cluster_search (unicode_of ''...'' @ unicode_of ''submitted to cluster '') = None"
    using early by (simp add: unicode_of_def isdigit_def)
  from submit_dag_cluster_id [where which = ?which and shell = ?ok and dagfile = "''foo.dag''"
      and force = False, OF exe cmd,
      THEN conjunct2, rule_format, of ?out,
      THEN conjunct2, THEN conjunct2, rule_format, OF _ shape]
  have "submit_dag ?which ?ok ''foo.dag'' False
      = (if length (unicode_of ''4821'') \<le> int_max_str_digits
         then Inr (foldl (\<lambda>n c. 10 * n + digit_value c) 0 (unicode_of ''4821''))
         else Inl (ValueError ''Exceeds the limit (4300 digits) for integer string conversion''))"
    by simp
  then have one: "submit_dag ?which ?ok ''foo.dag'' False = Inr 4821"
    by (simp add: digit_value_def unicode_of_def int_max_str_digits_def)
  from submit_dag_cluster_id [where which = ?which and shell = ?bad and dagfile = "''foo.dag''"
      and force = False, OF exe cmd,
      THEN conjunct1, rule_format, of "CalledProcessError 1"]
  have two: "submit_dag ?which ?bad ''foo.dag'' False = Inl (CalledProcessError 1)" by simp
  have three: "submit_dag ?which (\<lambda>cmd. Inr (unicode_of ''ERROR: submit failed'')) ''foo.dag'' False
        = Inl (AttributeError ''Failed to extract DAG cluster ID from condor_submit_dag output'')"
    by (simp add: submit_dag_def re_dagman_cluster_search_def unicode_of_def isdigit_def)
  have four: "submit_dag ?which
      (\<lambda>cmd. Inr (unicode_of ''submitted'' @ [0x1F] @ unicode_of ''to'' @ [0x2003]
                    @ unicode_of ''cluster 12''))
      ''foo.dag'' False = Inr 12"
    by (simp add: submit_dag_def re_dagman_cluster_search_def unicode_of_def isdigit_def
          lookbehind_def re_lookbehind_def isspace_def py_int_def digit_value_def
          int_max_str_digits_def)
  let ?long = "unicode_of ''submitted to cluster '' @ replicate 4301 49"
  let ?huge = "\<lambda>cmd :: string list. Inr ?long :: error + unicode"
  have early': "re_dagman_cluster_search ([] @ unicode_of ''submitted to cluster '') = None"
    by (simp add: re_dagman_cluster_search_def unicode_of_def isdigit_def)
  have shape': "?long = [] @ unicode_of ''submitted to cluster '' @ replicate 4301 49 @ []
      \<and> replicate 4301 (49::nat) \<noteq> [] \<and> list_all isdigit (replicate 4301 49)
      \<and> (([]::unicode) = [] \<or> \<not> isdigit (hd []))
      \<and> re_dagman_cluster_search ([] @ unicode_of ''submitted to cluster '') = None"
    using early' by (simp add: isdigit_def list_all_iff)
  from submit_dag_cluster_id [where which = ?which and shell = ?huge and dagfile = "''foo.dag''"
      and force = False, OF exe cmd,
      THEN conjunct2, rule_format, of ?long,
      THEN conjunct2, THEN conjunct2, rule_format, OF _ shape']
  have five: "submit_dag ?which ?huge ''foo.dag'' False
      = Inl (ValueError ''Exceeds the limit (4300 digits) for integer string conversion'')"
    by (simp add: int_max_str_digits_def)
  from one two three four five show ?thesis by blast
qed

end
